theory Spec2Isabelle
  imports Main "HOL-Library.Word" "HOL-Library.Multiset" "HOL-Library.Sublist"
begin

section \<open>Strings and bytes\<close>

text \<open>
  A Go \<open>string\<close> is a sequence of bytes, as \<^typ>\<open>string\<close> is here; a \<open>[]byte\<close> is a
  list of 8-bit words. \<open>strings.HasPrefix s p\<close> is \<^term>\<open>prefix p s\<close>.
\<close>

type_synonym byte = "8 word"

definition HasPrefix :: "string \<Rightarrow> string \<Rightarrow> bool" where
  "HasPrefix s p = prefix p s"

text \<open>Go compares strings bytewise, the shorter of two with a common prefix first.\<close>

fun str_less :: "string \<Rightarrow> string \<Rightarrow> bool" where
  "str_less [] [] = False"
| "str_less [] (y # ys) = True"
| "str_less (x # xs) [] = False"
| "str_less (x # xs) (y # ys) =
     (if x = y then str_less xs ys else (of_char x :: nat) < of_char y)"

text \<open>\<open>strings.Split s sep\<close> for a one-byte separator: never the empty list.\<close>

fun splitc :: "char \<Rightarrow> string \<Rightarrow> string list" where
  "splitc c [] = [[]]"
| "splitc c (x # xs) =
     (if x = c then [] # splitc c xs
      else (case splitc c xs of [] \<Rightarrow> [[x]] | y # ys \<Rightarrow> (x # y) # ys))"

section \<open>Configuration (package config)\<close>

record Repo =
  repo_URL :: string
  OutputDir :: string

record Config =
  Github :: "Repo list"
  MirrorURL :: string

definition GetDownloadURL :: "Config \<Rightarrow> string \<Rightarrow> string \<Rightarrow> string" where
  "GetDownloadURL c repoURL assetURL =
     (if MirrorURL c = [] then assetURL else MirrorURL c @ ''/'' @ assetURL)"

text \<open>
  The choice of the download URL in \<open>installRepo\<close> of the installer that takes an asset
  filter: \<open>PingGoogle\<close> is a network probe, so its answer is an input here.
\<close>

definition installRepo_downloadURL :: "bool \<Rightarrow> Config \<Rightarrow> Repo \<Rightarrow> string \<Rightarrow> string" where
  "installRepo_downloadURL pingGoogle cfg repo assetURL =
     (if pingGoogle then assetURL else GetDownloadURL cfg (repo_URL repo) assetURL)"

text \<open>The same step in the installer without a filter argument: no probe.\<close>

definition installRepo_downloadURL_unfiltered :: "Config \<Rightarrow> Repo \<Rightarrow> string \<Rightarrow> string" where
  "installRepo_downloadURL_unfiltered cfg repo assetURL =
     GetDownloadURL cfg (repo_URL repo) assetURL"

section \<open>Semantic versions (golang.org/x/mod/semver, as the release finder calls it)\<close>

record parsed =
  major :: string
  minor :: string
  patch :: string
  short :: string
  prerelease :: string
  build :: string

definition isDigit :: "char \<Rightarrow> bool" where
  "isDigit c = ((of_char c :: nat) \<ge> 48 \<and> (of_char c :: nat) \<le> 57)"

definition isIdentChar :: "char \<Rightarrow> bool" where
  "isIdentChar c =
     (let n = (of_char c :: nat) in
      (65 \<le> n \<and> n \<le> 90) \<or> (97 \<le> n \<and> n \<le> 122) \<or> (48 \<le> n \<and> n \<le> 57) \<or> c = CHR ''-'')"

definition isNum :: "string \<Rightarrow> bool" where
  "isNum v = (takeWhile isDigit v = v)"

definition isBadNum :: "string \<Rightarrow> bool" where
  "isBadNum v = (takeWhile isDigit v = v \<and> length v > 1 \<and> hd v = CHR ''0'')"

text \<open>\<open>parseInt\<close>: the leading run of digits, refused when empty or with a leading zero.\<close>

definition parseInt :: "string \<Rightarrow> (string \<times> string) option" where
  "parseInt v =
     (case v of
        [] \<Rightarrow> None
      | c # _ \<Rightarrow>
          if \<not> isDigit c then None
          else if c = CHR ''0'' \<and> length (takeWhile isDigit v) \<noteq> 1 then None
          else Some (takeWhile isDigit v, dropWhile isDigit v))"

text \<open>
  The scanning loop of \<open>parsePrerelease\<close>: \<open>acc\<close> is \<open>v[:i]\<close>, \<open>cur\<close> is \<open>v[start:i]\<close>, the
  last argument is \<open>v[i:]\<close>.
\<close>

fun scanPrerelease :: "string \<Rightarrow> string \<Rightarrow> string \<Rightarrow> (string \<times> string) option" where
  "scanPrerelease acc cur [] =
     (if cur = [] \<or> isBadNum cur then None else Some (acc, []))"
| "scanPrerelease acc cur (c # cs) =
     (if c = CHR ''+'' then (if cur = [] \<or> isBadNum cur then None else Some (acc, c # cs))
      else if \<not> isIdentChar c \<and> c \<noteq> CHR ''.'' then None
      else if c = CHR ''.'' then
        (if cur = [] \<or> isBadNum cur then None else scanPrerelease (acc @ [c]) [] cs)
      else scanPrerelease (acc @ [c]) (cur @ [c]) cs)"

definition parsePrerelease :: "string \<Rightarrow> (string \<times> string) option" where
  "parsePrerelease v =
     (case v of
        [] \<Rightarrow> None
      | c # cs \<Rightarrow> if c \<noteq> CHR ''-'' then None else scanPrerelease [c] [] cs)"

fun scanBuild :: "string \<Rightarrow> string \<Rightarrow> string \<Rightarrow> (string \<times> string) option" where
  "scanBuild acc cur [] = (if cur = [] then None else Some (acc, []))"
| "scanBuild acc cur (c # cs) =
     (if \<not> isIdentChar c \<and> c \<noteq> CHR ''.'' then None
      else if c = CHR ''.'' then (if cur = [] then None else scanBuild (acc @ [c]) [] cs)
      else scanBuild (acc @ [c]) (cur @ [c]) cs)"

definition parseBuild :: "string \<Rightarrow> (string \<times> string) option" where
  "parseBuild v =
     (case v of
        [] \<Rightarrow> None
      | c # cs \<Rightarrow> if c \<noteq> CHR ''+'' then None else scanBuild [c] [] cs)"

text \<open>The tail of \<open>parse\<close> after the patch number: prerelease, build, then nothing.\<close>

definition parseTail :: "parsed \<Rightarrow> string \<Rightarrow> parsed option" where
  "parseTail p v =
     (case (if v \<noteq> [] \<and> hd v = CHR ''-''
            then (case parsePrerelease v of
                    None \<Rightarrow> None
                  | Some (t, r) \<Rightarrow> Some (p\<lparr>prerelease := t\<rparr>, r))
            else Some (p, v)) of
        None \<Rightarrow> None
      | Some (p1, v1) \<Rightarrow>
          (case (if v1 \<noteq> [] \<and> hd v1 = CHR ''+''
                 then (case parseBuild v1 of
                         None \<Rightarrow> None
                       | Some (t, r) \<Rightarrow> Some (p1\<lparr>build := t\<rparr>, r))
                 else Some (p1, v1)) of
             None \<Rightarrow> None
           | Some (p2, v2) \<Rightarrow> if v2 \<noteq> [] then None else Some p2))"

definition parse :: "string \<Rightarrow> parsed option" where
  "parse v =
     (let p0 = \<lparr>major = [], minor = [], patch = [], short = [], prerelease = [], build = []\<rparr> in
      case v of
        [] \<Rightarrow> None
      | c # v0 \<Rightarrow>
          if c \<noteq> CHR ''v'' then None
          else (case parseInt v0 of
            None \<Rightarrow> None
          | Some (ma, v1) \<Rightarrow>
              if v1 = [] then Some (p0\<lparr>major := ma, minor := ''0'', patch := ''0'', short := ''.0.0''\<rparr>)
              else if hd v1 \<noteq> CHR ''.'' then None
              else (case parseInt (tl v1) of
                None \<Rightarrow> None
              | Some (mi, v2) \<Rightarrow>
                  if v2 = [] then Some (p0\<lparr>major := ma, minor := mi, patch := ''0'', short := ''.0''\<rparr>)
                  else if hd v2 \<noteq> CHR ''.'' then None
                  else (case parseInt (tl v2) of
                    None \<Rightarrow> None
                  | Some (pa, v3) \<Rightarrow> parseTail (p0\<lparr>major := ma, minor := mi, patch := pa\<rparr>) v3))))"

definition IsValid :: "string \<Rightarrow> bool" where
  "IsValid v = (parse v \<noteq> None)"

definition compareInt :: "string \<Rightarrow> string \<Rightarrow> int" where
  "compareInt x y =
     (if x = y then 0
      else if length x < length y then -1
      else if length x > length y then 1
      else if str_less x y then -1 else 1)"

text \<open>\<open>nextIdent\<close>: up to the next dot.\<close>

definition nextIdent :: "string \<Rightarrow> string \<times> string" where
  "nextIdent x = (takeWhile (\<lambda>c. c \<noteq> CHR ''.'') x, dropWhile (\<lambda>c. c \<noteq> CHR ''.'') x)"

function comparePrereleaseLoop :: "string \<Rightarrow> string \<Rightarrow> int" where
  "comparePrereleaseLoop x y =
     (if x \<noteq> [] \<and> y \<noteq> [] then
        (let (dx, x') = nextIdent (tl x); (dy, y') = nextIdent (tl y) in
         if dx \<noteq> dy then
           (let ix = isNum dx; iy = isNum dy in
            if ix \<noteq> iy then (if ix then -1 else 1)
            else if ix \<and> length dx < length dy then -1
            else if ix \<and> length dx > length dy then 1
            else if str_less dx dy then -1 else 1)
         else comparePrereleaseLoop x' y')
      else if x = [] then -1 else 1)"
  by pat_completeness auto
termination
proof (relation "measure (\<lambda>(x, y). length x)")
  show "wf (measure (\<lambda>(x, y). length x))" by simp
next
  fix x y :: string and p q dx x' dy y'
  assume "x \<noteq> [] \<and> y \<noteq> []" and "p = nextIdent (tl x)" and "(dx, x') = p"
  then have "x' = dropWhile (\<lambda>c. c \<noteq> CHR ''.'') (tl x)"
    by (simp add: nextIdent_def)
  moreover have "length (dropWhile (\<lambda>c. c \<noteq> CHR ''.'') (tl x)) \<le> length (tl x)"
    by (rule length_dropWhile_le)
  moreover have "length (tl x) < length x" using \<open>x \<noteq> [] \<and> y \<noteq> []\<close> by (cases x) auto
  ultimately show "((x', y'), (x, y)) \<in> measure (\<lambda>(x, y). length x)" by simp
qed

definition comparePrerelease :: "string \<Rightarrow> string \<Rightarrow> int" where
  "comparePrerelease x y =
     (if x = y then 0
      else if x = [] then 1
      else if y = [] then -1
      else comparePrereleaseLoop x y)"

definition Compare :: "string \<Rightarrow> string \<Rightarrow> int" where
  "Compare v w =
     (case (parse v, parse w) of
        (None, None) \<Rightarrow> 0
      | (None, Some _) \<Rightarrow> -1
      | (Some _, None) \<Rightarrow> 1
      | (Some pv, Some pw) \<Rightarrow>
          if compareInt (major pv) (major pw) \<noteq> 0 then compareInt (major pv) (major pw)
          else if compareInt (minor pv) (minor pw) \<noteq> 0 then compareInt (minor pv) (minor pw)
          else if compareInt (patch pv) (patch pw) \<noteq> 0 then compareInt (patch pv) (patch pw)
          else comparePrerelease (prerelease pv) (prerelease pw))"

section \<open>Release finder (package release)\<close>

record Asset =
  asset_Name :: string
  asset_URL :: string
  ContentType :: string
  Size :: int

text \<open>\<open>PublishedAt\<close> is an instant; \<open>After\<close> is \<open>>\<close> on instants.\<close>

record Release =
  TagName :: string
  release_Name :: string
  Assets :: "Asset list"
  Draft :: bool
  Prerelease :: bool
  PublishedAt :: int

definition filterStableReleases :: "Release list \<Rightarrow> Release list" where
  "filterStableReleases releases = filter (\<lambda>r. \<not> Draft r \<and> \<not> Prerelease r) releases"

definition normalizeTag :: "string \<Rightarrow> string" where
  "normalizeTag tag =
     (if tag = [] then []
      else if HasPrefix tag ''v'' then tag
      else ''v'' @ tag)"

text \<open>The \<open>less\<close> closure handed to \<open>sort.Slice\<close> in \<open>findLatestRelease\<close>.\<close>

definition release_less :: "Release \<Rightarrow> Release \<Rightarrow> bool" where
  "release_less ri rj =
     (let tagI = normalizeTag (TagName ri); tagJ = normalizeTag (TagName rj) in
      if IsValid tagI \<and> IsValid tagJ then Compare tagI tagJ > 0
      else if IsValid tagI \<and> \<not> IsValid tagJ then True
      else if \<not> IsValid tagI \<and> IsValid tagJ then False
      else PublishedAt ri > PublishedAt rj)"

datatype release_error =
  PanicNoReleases
| PanicIndex
| FetchFailed
| BadStatus nat
| DecodeFailed
| NoReleasesFound
| NoStableReleasesFound

text \<open>
  \<open>sort.Slice\<close> is the standard library's unstable sort; it is an argument here, and a
  theorem that needs its contract (an ordered permutation of the input) assumes it of the
  call made.
\<close>

type_synonym sorter = "(Release \<Rightarrow> Release \<Rightarrow> bool) \<Rightarrow> Release list \<Rightarrow> Release list"

definition findLatestRelease :: "sorter \<Rightarrow> Release list \<Rightarrow> release_error + Release" where
  "findLatestRelease sortSlice releases =
     (case releases of
        [] \<Rightarrow> Inl PanicNoReleases
      | [r] \<Rightarrow> Inr r
      | _ \<Rightarrow> (case sortSlice release_less releases of
                [] \<Rightarrow> Inl PanicIndex
              | r # _ \<Rightarrow> Inr r))"

text \<open>
  \<open>LatestStable\<close> after the HTTP exchange: the response is \<open>Inl\<close> when the request failed,
  else the status code and the decoded body (\<open>None\<close> when decoding failed).
\<close>

definition LatestStable ::
  "sorter \<Rightarrow> (unit + nat \<times> Release list option) \<Rightarrow> release_error + Release" where
  "LatestStable sortSlice resp =
     (case resp of
        Inl _ \<Rightarrow> Inl FetchFailed
      | Inr (status, body) \<Rightarrow>
          if status \<noteq> 200 then Inl (BadStatus status)
          else (case body of
            None \<Rightarrow> Inl DecodeFailed
          | Some releases \<Rightarrow>
              if releases = [] then Inl NoReleasesFound
              else if filterStableReleases releases = [] then Inl NoStableReleasesFound
              else findLatestRelease sortSlice (filterStableReleases releases)))"

text \<open>
  Insertion sort as package \<open>sort\<close> runs it on short slices: each element in turn moves
  left while it is \<open>less\<close> than its left neighbour. The sorted part is kept reversed, its
  last element first.
\<close>

fun insertionStep :: "('a \<Rightarrow> 'a \<Rightarrow> bool) \<Rightarrow> 'a \<Rightarrow> 'a list \<Rightarrow> 'a list" where
  "insertionStep lt x [] = [x]"
| "insertionStep lt x (y # ys) = (if lt x y then y # insertionStep lt x ys else x # y # ys)"

definition insertionSort :: "('a \<Rightarrow> 'a \<Rightarrow> bool) \<Rightarrow> 'a list \<Rightarrow> 'a list" where
  "insertionSort lt xs = rev (foldl (\<lambda>acc x. insertionStep lt x acc) [] xs)"

text \<open>What \<open>sort.Slice\<close> promises of one call: the same elements, none before one it is less than.\<close>

definition sort_contract :: "sorter \<Rightarrow> Release list \<Rightarrow> bool" where
  "sort_contract sortSlice xs =
     (mset (sortSlice release_less xs) = mset xs \<and>
      sorted_wrt (\<lambda>a b. \<not> release_less b a) (sortSlice release_less xs))"

section \<open>Paths (path/filepath on Unix, as the extractor calls it)\<close>

text \<open>
  \<open>filepath.Clean\<close> reads the path element by element (the elements are what lies between
  separators) and keeps a stack of the elements written so far: an empty element and \<open>.\<close>
  are dropped; \<open>..\<close> removes the last element written if there is one that is not itself
  \<open>..\<close>, is dropped at the root of a rooted path, and is written otherwise. The stack is
  kept here with its top first.
\<close>

fun joinc :: "string list \<Rightarrow> string" where
  "joinc [] = []"
| "joinc [x] = x"
| "joinc (x # y # ys) = x @ ''/'' @ joinc (y # ys)"

definition clean_step :: "bool \<Rightarrow> string list \<Rightarrow> string \<Rightarrow> string list" where
  "clean_step rooted out seg =
     (if seg = [] \<or> seg = ''.'' then out
      else if seg = ''..'' then
        (if out \<noteq> [] \<and> hd out \<noteq> ''..'' then tl out
         else if \<not> rooted then ''..'' # out
         else out)
      else seg # out)"

definition Clean :: "string \<Rightarrow> string" where
  "Clean path =
     (if path = [] then ''.''
      else
        (let rooted = (hd path = CHR ''/'');
             out = foldl (clean_step rooted) [] (splitc CHR ''/'' path);
             s = (if rooted then ''/'' else []) @ joinc (rev out)
         in if s = [] then ''.'' else s))"

text \<open>\<open>filepath.Join\<close> of two elements: from the first non-empty one on, joined and cleaned.\<close>

definition Join :: "string \<Rightarrow> string \<Rightarrow> string" where
  "Join a b =
     (if a \<noteq> [] then Clean (a @ ''/'' @ b)
      else if b \<noteq> [] then Clean b
      else [])"

text \<open>\<open>filepath.Dir\<close>: the path up to and with its last separator, cleaned.\<close>

definition Dir :: "string \<Rightarrow> string" where
  "Dir path = Clean (rev (dropWhile (\<lambda>c. c \<noteq> CHR ''/'') (rev path)))"

text \<open>
  The shape of the stack of \<open>Clean\<close>: ordinary elements (not empty, not \<open>.\<close>, not \<open>..\<close>,
  without a separator) above a run of \<open>..\<close>, which is empty for a rooted path.
\<close>

definition plain :: "string \<Rightarrow> bool" where
  "plain s = (s \<noteq> [] \<and> s \<noteq> ''.'' \<and> s \<noteq> ''..'' \<and> CHR ''/'' \<notin> set s)"

definition nf :: "bool \<Rightarrow> string list \<Rightarrow> bool" where
  "nf rooted out = (\<exists>ps ds. out = ps @ ds \<and> list_all plain ps \<and> list_all (\<lambda>s. s = ''..'') ds \<and> (rooted \<longrightarrow> ds = []))"

section \<open>The operating system, as the extractor sees it\<close>

text \<open>
  The extractor reaches the file system through four calls of package \<open>os\<close>. What a call
  returns and how it changes the file system is the operating system's business: the
  extractor is modelled over any such behaviour \<open>sys\<close>, and records every call it makes.
  \<open>OpenFile\<close> stands for \<open>os.OpenFile\<close> with \<open>O_WRONLY|O_CREATE|O_TRUNC\<close>, \<open>WriteFile\<close> for
  the writes of the copy into the file just opened. Permission bits are numbers: the
  source's octal \<open>0755\<close> is 493.
\<close>

datatype errno = ENOTDIR | EEXIST | ENOENT | EISDIR | EACCES | ELOOP | EIO

datatype fs_call =
  MkdirAll string nat
| OpenFile string nat
| WriteFile string "byte list"
| Symlink string string

type_synonym 'fs sys = "fs_call \<Rightarrow> 'fs \<Rightarrow> errno option \<times> 'fs"

record 'fs world =
  fs :: 'fs
  calls :: "fs_call list"

definition perform :: "'fs sys \<Rightarrow> fs_call \<Rightarrow> 'fs world \<Rightarrow> errno option \<times> 'fs world" where
  "perform sys c w =
     (case sys c (fs w) of (r, f') \<Rightarrow> (r, \<lparr>fs = f', calls = calls w @ [c]\<rparr>))"

section \<open>Archive extraction (package extractor)\<close>

datatype extract_error =
  CreateDestFailed string errno
| PeekFailed
| UnsupportedFormat
| FileTooSmall
| UnknownFormat
| GzipReaderFailed
| ReadTarEntryFailed
| TarEntryFailed string extract_error
| ReadZipFailed
| ZipReaderFailed
| ZipEntryFailed string extract_error
| OpenZipEntryFailed
| InvalidFilePath string
| InvalidSymlinkTarget string
| OsError errno
| CreateDirFailed string errno
| CreateFileFailed string errno
| WriteFailed string

subsection \<open>Format detection\<close>

definition detectFormat :: "byte list \<Rightarrow> extract_error + string" where
  "detectFormat data =
     (if length data < 4 then Inl FileTooSmall
      else if data ! 0 = 0x1f \<and> data ! 1 = 0x8b then Inr ''tar.gz''
      else if data ! 0 = 0x50 \<and> data ! 1 = 0x4b \<and> data ! 2 = 0x03 \<and> data ! 3 = 0x04
        then Inr ''zip''
      else Inl UnknownFormat)"

definition detectFormatFromBytes :: "byte list \<Rightarrow> string" where
  "detectFormatFromBytes data =
     (if length data < 4 then []
      else if data ! 0 = 0x1f \<and> data ! 1 = 0x8b then ''tar.gz''
      else if data ! 0 = 0x50 \<and> data ! 1 = 0x4b \<and> data ! 2 = 0x03 \<and> data ! 3 = 0x04
        then ''zip''
      else [])"

text \<open>\<open>bufio.Reader.Peek n\<close> on a source that ends: the next \<open>n\<close> bytes, or an error when
  fewer are left.\<close>

definition Peek :: "nat \<Rightarrow> byte list \<Rightarrow> unit + byte list" where
  "Peek n src = (if length src < n then Inl () else Inr (take n src))"

subsection \<open>Entries\<close>

text \<open>
  The decoders (\<open>compress/gzip\<close>, \<open>archive/tar\<close>, \<open>archive/zip\<close>) are library code: what
  they yield on the source is part of the input. A tar entry is its header and what the
  entry's reader delivers: \<open>tar_data\<close>, then an error if \<open>tar_read_error\<close>. A zip entry has
  its name, what \<open>FileInfo\<close> says of it, whether \<open>Open\<close> fails, and what its reader delivers.
\<close>

datatype typeflag = TypeReg | TypeDir | TypeSymlink | TypeOther

record tar_entry =
  hdr_Name :: string
  hdr_Mode :: int
  hdr_Typeflag :: typeflag
  hdr_Linkname :: string
  tar_data :: "byte list"
  tar_read_error :: bool

record zip_file =
  zip_Name :: string
  zip_IsDir :: bool
  zip_Mode :: nat
  zip_open_error :: bool
  zip_data :: "byte list"
  zip_read_error :: bool

text \<open>What \<open>tarReader.Next\<close> returns before the end of the archive.\<close>

datatype tar_next = Header tar_entry | NextError

record archive =
  raw :: "byte list"
  gzip_ok :: bool
  tar_items :: "tar_next list"
  read_all_ok :: bool
  zip_files :: "zip_file list option"

text \<open>\<open>os.FileMode(header.Mode)\<close>: an \<open>int64\<close> converted to 32 bits.\<close>

definition FileMode :: "int \<Rightarrow> nat" where
  "FileMode m = nat (m mod 2 ^ 32)"

definition extractFileOptimized ::
  "'fs sys \<Rightarrow> byte list \<Rightarrow> bool \<Rightarrow> string \<Rightarrow> nat \<Rightarrow> 'fs world \<Rightarrow> extract_error option \<times> 'fs world" where
  "extractFileOptimized sys data read_error path mode w =
     (case perform sys (MkdirAll (Dir path) 493) w of
        (Some e, w1) \<Rightarrow> (Some (CreateDirFailed path e), w1)
      | (None, w1) \<Rightarrow>
          (case perform sys (OpenFile path mode) w1 of
             (Some e, w2) \<Rightarrow> (Some (CreateFileFailed path e), w2)
           | (None, w2) \<Rightarrow>
               (case perform sys (WriteFile path data) w2 of
                  (Some e, w3) \<Rightarrow> (Some (WriteFailed path), w3)
                | (None, w3) \<Rightarrow>
                    if read_error then (Some (WriteFailed path), w3) else (None, w3))))"

definition os_result :: "errno option \<times> 'fs world \<Rightarrow> extract_error option \<times> 'fs world" where
  "os_result r = (case r of (None, w) \<Rightarrow> (None, w) | (Some e, w) \<Rightarrow> (Some (OsError e), w))"

definition extractTarEntryOptimized ::
  "'fs sys \<Rightarrow> tar_entry \<Rightarrow> string \<Rightarrow> 'fs world \<Rightarrow> extract_error option \<times> 'fs world" where
  "extractTarEntryOptimized sys header dst w =
     (let path = Join dst (hdr_Name header);
          cleanedDst = Clean dst;
          cleanedPath = Clean path
      in
      if hdr_Name header = ''./'' \<or> hdr_Name header = ''.'' then (None, w)
      else if \<not> HasPrefix cleanedPath cleanedDst \<or>
              (cleanedPath \<noteq> cleanedDst \<and> \<not> HasPrefix cleanedPath (cleanedDst @ ''/''))
        then (Some (InvalidFilePath (hdr_Name header)), w)
      else
        (case hdr_Typeflag header of
           TypeDir \<Rightarrow> os_result (perform sys (MkdirAll path (FileMode (hdr_Mode header))) w)
         | TypeReg \<Rightarrow>
             extractFileOptimized sys (tar_data header) (tar_read_error header) path
               (FileMode (hdr_Mode header)) w
         | TypeSymlink \<Rightarrow>
             (let linkTarget = hdr_Linkname header in
              if \<not> HasPrefix (Join dst linkTarget) dst
                then (Some (InvalidSymlinkTarget linkTarget), w)
              else os_result (perform sys (Symlink linkTarget path) w))
         | TypeOther \<Rightarrow> (None, w)))"

text \<open>The \<open>for\<close> loop of \<open>extractTarGzStream\<close> over what \<open>Next\<close> yields.\<close>

fun extractTarGzStream_loop ::
  "'fs sys \<Rightarrow> tar_next list \<Rightarrow> string \<Rightarrow> 'fs world \<Rightarrow> extract_error option \<times> 'fs world" where
  "extractTarGzStream_loop sys [] dst w = (None, w)"
| "extractTarGzStream_loop sys (NextError # rest) dst w = (Some ReadTarEntryFailed, w)"
| "extractTarGzStream_loop sys (Header header # rest) dst w =
     (case extractTarEntryOptimized sys header dst w of
        (Some e, w') \<Rightarrow> (Some (TarEntryFailed (hdr_Name header) e), w')
      | (None, w') \<Rightarrow> extractTarGzStream_loop sys rest dst w')"

definition extractTarGzStream ::
  "'fs sys \<Rightarrow> archive \<Rightarrow> string \<Rightarrow> 'fs world \<Rightarrow> extract_error option \<times> 'fs world" where
  "extractTarGzStream sys src dst w =
     (if \<not> gzip_ok src then (Some GzipReaderFailed, w)
      else extractTarGzStream_loop sys (tar_items src) dst w)"

definition extractZipEntryOptimized ::
  "'fs sys \<Rightarrow> zip_file \<Rightarrow> string \<Rightarrow> 'fs world \<Rightarrow> extract_error option \<times> 'fs world" where
  "extractZipEntryOptimized sys file dst w =
     (let path = Join dst (zip_Name file);
          cleanedDst = Clean dst;
          cleanedPath = Clean path
      in
      if zip_Name file = ''./'' \<or> zip_Name file = ''.'' then (None, w)
      else if \<not> HasPrefix cleanedPath cleanedDst \<or>
              (cleanedPath \<noteq> cleanedDst \<and> \<not> HasPrefix cleanedPath (cleanedDst @ ''/''))
        then (Some (InvalidFilePath (zip_Name file)), w)
      else if zip_IsDir file then os_result (perform sys (MkdirAll path (zip_Mode file)) w)
      else if zip_open_error file then (Some OpenZipEntryFailed, w)
      else extractFileOptimized sys (zip_data file) (zip_read_error file) path (zip_Mode file) w)"

fun extractZipFromReader_loop ::
  "'fs sys \<Rightarrow> zip_file list \<Rightarrow> string \<Rightarrow> 'fs world \<Rightarrow> extract_error option \<times> 'fs world" where
  "extractZipFromReader_loop sys [] dst w = (None, w)"
| "extractZipFromReader_loop sys (file # rest) dst w =
     (case extractZipEntryOptimized sys file dst w of
        (Some e, w') \<Rightarrow> (Some (ZipEntryFailed (zip_Name file) e), w')
      | (None, w') \<Rightarrow> extractZipFromReader_loop sys rest dst w')"

definition extractZipFromReader ::
  "'fs sys \<Rightarrow> archive \<Rightarrow> string \<Rightarrow> 'fs world \<Rightarrow> extract_error option \<times> 'fs world" where
  "extractZipFromReader sys src dst w =
     (if \<not> read_all_ok src then (Some ReadZipFailed, w)
      else (case zip_files src of
              None \<Rightarrow> (Some ZipReaderFailed, w)
            | Some files \<Rightarrow> extractZipFromReader_loop sys files dst w))"

text \<open>\<open>OptimizedExtractor.Extract\<close>, the extractor that \<open>New\<close> returns.\<close>

definition Extract ::
  "'fs sys \<Rightarrow> archive \<Rightarrow> string \<Rightarrow> 'fs world \<Rightarrow> extract_error option \<times> 'fs world" where
  "Extract sys src dst w =
     (case perform sys (MkdirAll dst 493) w of
        (Some e, w1) \<Rightarrow> (Some (CreateDestFailed dst e), w1)
      | (None, w1) \<Rightarrow>
          (case Peek 4 (raw src) of
             Inl _ \<Rightarrow> (Some PeekFailed, w1)
           | Inr peek \<Rightarrow>
               (let format = detectFormatFromBytes peek in
                if format = ''tar.gz'' \<or> format = ''tgz'' then extractTarGzStream sys src dst w1
                else if format = ''zip'' then extractZipFromReader sys src dst w1
                else (Some UnsupportedFormat, w1))))"

section \<open>The installer (package installer)\<close>

definition ParseRepoURL :: "string \<Rightarrow> unit + string \<times> string" where
  "ParseRepoURL repoURL =
     (if \<not> HasPrefix repoURL ''https://github.com/'' then Inl ()
      else
        (let parts = splitc CHR ''/'' (drop (length ''https://github.com/'') repoURL)
         in if length parts < 2 then Inl () else Inr (parts ! 0, parts ! 1)))"

datatype install_error =
  ParseURLFailed
| FindReleaseFailed release_error
| NoSuitableAsset
| DownloadFailed
| ExtractFailed extract_error

text \<open>
  The collaborators of an \<open>Installer\<close>: the finder and the downloader receive the caller's
  context (of any type \<open>'ctx\<close>: what they do with it is theirs), the extractor is \<open>Extract\<close>
  over the operating system \<open>inst_sys\<close>, and \<open>PingGoogle\<close> has answered \<open>inst_ping\<close>.
\<close>

record ('ctx, 'fs) installer =
  inst_finder :: "'ctx \<Rightarrow> string \<Rightarrow> string \<Rightarrow> release_error + Release"
  inst_downloader :: "'ctx \<Rightarrow> string \<Rightarrow> unit + archive"
  inst_ping :: bool
  inst_sys :: "'fs sys"

definition installRepo ::
  "('ctx, 'fs) installer \<Rightarrow> 'ctx \<Rightarrow> Config \<Rightarrow> Repo \<Rightarrow> (Asset list \<Rightarrow> unit + Asset) \<Rightarrow>
   'fs world \<Rightarrow> install_error option \<times> 'fs world" where
  "installRepo i ctx cfg repo assetFilter w =
     (case ParseRepoURL (repo_URL repo) of
        Inl _ \<Rightarrow> (Some ParseURLFailed, w)
      | Inr (owner, repoName) \<Rightarrow>
          (case inst_finder i ctx owner repoName of
             Inl e \<Rightarrow> (Some (FindReleaseFailed e), w)
           | Inr rel \<Rightarrow>
               (case assetFilter (Assets rel) of
                  Inl _ \<Rightarrow> (Some NoSuitableAsset, w)
                | Inr asset \<Rightarrow>
                    (case inst_downloader i ctx
                            (installRepo_downloadURL (inst_ping i) cfg repo (asset_URL asset)) of
                       Inl _ \<Rightarrow> (Some DownloadFailed, w)
                     | Inr reader \<Rightarrow>
                         (case Extract (inst_sys i) reader (OutputDir repo) w of
                            (Some e, w') \<Rightarrow> (Some (ExtractFailed e), w')
                          | (None, w') \<Rightarrow> (None, w'))))))"

text \<open>A cancellation signal for the context: never raised, or raised once so many
  entries have been extracted.\<close>

datatype cancel_signal = NeverCancelled | CancelledAfter nat

section \<open>A file system for the calls\<close>

text \<open>
  One behaviour of the operating system, used where a claim is about the directory tree
  itself. It is the textbook one, not code of the repository: a tree maps a cleaned path
  to a directory, a regular file or a symbolic link (with permission bits as created);
  the root, the working directory and its ancestors always exist. Two things the calls
  depend on are inputs: which permission bits let the extracting user open an existing
  file for writing (\<open>may_write\<close>: all of them for the superuser), and what the process's
  umask leaves of the bits asked for (\<open>creat_mode\<close>). Symbolic links are stored, never
  followed: a call whose path runs through one is refused with \<open>ELOOP\<close>.
\<close>

datatype node = DirNode nat | FileNode nat "byte list" | LinkNode string

type_synonym tree = "string \<Rightarrow> node option"

record posix_env =
  may_write :: "nat \<Rightarrow> bool"
  creat_mode :: "nat \<Rightarrow> nat"

definition implicit_dir :: "string \<Rightarrow> bool" where
  "implicit_dir p = (p = ''/'' \<or> p = ''.'' \<or> list_all (\<lambda>s. s = ''..'') (splitc CHR ''/'' p))"

definition node_at :: "tree \<Rightarrow> string \<Rightarrow> node option" where
  "node_at t p = (if implicit_dir p then Some (DirNode 493) else t p)"

text \<open>A cleaned path and its ancestors, the path first.\<close>

definition path_of_segs :: "string list \<Rightarrow> string" where
  "path_of_segs segs = (if joinc segs = [] then ''/'' else joinc segs)"

definition chain :: "string \<Rightarrow> string list" where
  "chain p =
     (let segs = splitc CHR ''/'' (Clean p)
      in map (\<lambda>k. path_of_segs (take k segs)) (rev [1..<Suc (length segs)]))"

text \<open>
  \<open>os.MkdirAll\<close>: nothing to do when the path is a directory, an error when it is
  something else; otherwise the parent first, then the directory itself.
\<close>

fun mkdirAll_chain :: "posix_env \<Rightarrow> nat \<Rightarrow> string list \<Rightarrow> tree \<Rightarrow> errno option \<times> tree" where
  "mkdirAll_chain env perm [] t = (None, t)"
| "mkdirAll_chain env perm (p # ps) t =
     (case node_at t p of
        Some (DirNode _) \<Rightarrow> (None, t)
      | Some (FileNode _ _) \<Rightarrow> (Some ENOTDIR, t)
      | Some (LinkNode _) \<Rightarrow> (Some ELOOP, t)
      | None \<Rightarrow>
          (case mkdirAll_chain env perm ps t of
             (Some e, t') \<Rightarrow> (Some e, t')
           | (None, t') \<Rightarrow> (None, t'(p \<mapsto> DirNode (creat_mode env perm)))))"

text \<open>Creating an entry needs its parent to be a directory.\<close>

definition parent_check :: "tree \<Rightarrow> string \<Rightarrow> errno option" where
  "parent_check t q =
     (case node_at t (Dir q) of
        Some (DirNode _) \<Rightarrow> None
      | Some (FileNode _ _) \<Rightarrow> Some ENOTDIR
      | Some (LinkNode _) \<Rightarrow> Some ELOOP
      | None \<Rightarrow> Some ENOENT)"

definition posix :: "posix_env \<Rightarrow> tree sys" where
  "posix env c t =
     (case c of
        MkdirAll p perm \<Rightarrow> mkdirAll_chain env perm (chain p) t
      | OpenFile p perm \<Rightarrow>
          (case node_at t (Clean p) of
             Some (FileNode m _) \<Rightarrow>
               if may_write env m then (None, t(Clean p \<mapsto> FileNode m [])) else (Some EACCES, t)
           | Some (DirNode _) \<Rightarrow> (Some EISDIR, t)
           | Some (LinkNode _) \<Rightarrow> (Some ELOOP, t)
           | None \<Rightarrow>
               (case parent_check t (Clean p) of
                  Some e \<Rightarrow> (Some e, t)
                | None \<Rightarrow> (None, t(Clean p \<mapsto> FileNode (creat_mode env perm) []))))
      | WriteFile p data \<Rightarrow>
          (case node_at t (Clean p) of
             Some (FileNode m c) \<Rightarrow> (None, t(Clean p \<mapsto> FileNode m (c @ data)))
           | _ \<Rightarrow> (Some EIO, t))
      | Symlink target p \<Rightarrow>
          (case node_at t (Clean p) of
             Some _ \<Rightarrow> (Some EEXIST, t)
           | None \<Rightarrow>
               (case parent_check t (Clean p) of
                  Some e \<Rightarrow> (Some e, t)
                | None \<Rightarrow> (None, t(Clean p \<mapsto> LinkNode target)))))"

text \<open>An ordinary user with umask 0: the owner's write bit (octal 0200) decides.\<close>

definition owner_env :: posix_env where
  "owner_env = \<lparr>may_write = (\<lambda>m. odd (m div 128)), creat_mode = (\<lambda>m. m mod 4096)\<rparr>"

definition start_world :: "tree world" where
  "start_world = \<lparr>fs = Map.empty, calls = []\<rparr>"

section \<open>Extracting twice: what is compared\<close>

text \<open>
  Two nodes are of the same kind when both are directories with the same permission
  bits, both regular files with the same bits (whatever they hold), or both links to the
  same target. A tree \<open>t\<close> has the shape of \<open>s\<close> and more when every path of \<open>s\<close> is in \<open>t\<close>
  with a node of the same kind. While a second extraction runs towards the tree \<open>F\<close> that
  the first one ended in, \<open>rerun_inv F s t\<close> relates the first run's tree \<open>s\<close> and the second
  run's tree \<open>t\<close> at the same entry: \<open>t\<close> has everything \<open>F\<close> has, and holds at each path what
  \<open>s\<close> or \<open>F\<close> holds there. An archive can be extracted again when it has no symbolic-link
  entry and the user may write to the regular files as they are created.
\<close>

fun same_kind :: "node \<Rightarrow> node \<Rightarrow> bool" where
  "same_kind (DirNode m) (DirNode m') = (m = m')"
| "same_kind (FileNode m c) (FileNode m' c') = (m = m')"
| "same_kind (LinkNode l) (LinkNode l') = (l = l')"
| "same_kind _ _ = False"

definition shape_le :: "tree \<Rightarrow> tree \<Rightarrow> bool" where
  "shape_le s t = (\<forall>p n. s p = Some n \<longrightarrow> (\<exists>n'. t p = Some n' \<and> same_kind n n'))"

definition rerun_inv :: "tree \<Rightarrow> tree \<Rightarrow> tree \<Rightarrow> bool" where
  "rerun_inv F s t = (shape_le F t \<and> (\<forall>p. t p = s p \<or> t p = F p))"

definition tar_rerunnable :: "posix_env \<Rightarrow> tar_next list \<Rightarrow> bool" where
  "tar_rerunnable env items =
     list_all (\<lambda>x. case x of
                 NextError \<Rightarrow> True
               | Header h \<Rightarrow>
                   (case hdr_Typeflag h of
                      TypeSymlink \<Rightarrow> False
                    | TypeReg \<Rightarrow> may_write env (creat_mode env (FileMode (hdr_Mode h)))
                    | _ \<Rightarrow> True)) items"

definition zip_rerunnable :: "posix_env \<Rightarrow> zip_file list \<Rightarrow> bool" where
  "zip_rerunnable env files =
     list_all (\<lambda>f. zip_IsDir f \<or> may_write env (creat_mode env (zip_Mode f))) files"

definition archive_rerunnable :: "posix_env \<Rightarrow> archive \<Rightarrow> bool" where
  "archive_rerunnable env a =
     (tar_rerunnable env (tar_items a) \<and>
      (case zip_files a of None \<Rightarrow> True | Some files \<Rightarrow> zip_rerunnable env files))"

text \<open>Where a rooted path may lie: the rooted root itself, or below it element by element.\<close>

definition within_root :: "string \<Rightarrow> string \<Rightarrow> bool" where
  "within_root root p = (p = root \<or> strict_prefix (splitc CHR ''/'' root) (splitc CHR ''/'' p))"

text \<open>
  Where any cleaned path lies, rooted or not. Its elements are what lies between
  separators, without the empty ones and \<open>.\<close>; it goes up by as many steps as it has \<open>..\<close>
  in front, and then down by the names that follow. A path is at or below a root when
  both are rooted or neither is, both go up by the same number of steps, and the names
  of the root begin the names of the path. (A path that goes further up than the root is
  above it; of one that goes less far up nothing can be said without the name of the
  working directory, and it is not counted as below.)
\<close>

definition path_elements :: "string \<Rightarrow> string list" where
  "path_elements p = filter (\<lambda>s. s \<noteq> [] \<and> s \<noteq> ''.'') (splitc CHR ''/'' p)"

definition steps_up :: "string \<Rightarrow> nat" where
  "steps_up p = length (takeWhile (\<lambda>s. s = ''..'') (path_elements p))"

definition path_names :: "string \<Rightarrow> string list" where
  "path_names p = dropWhile (\<lambda>s. s = ''..'') (path_elements p)"

definition is_rooted :: "string \<Rightarrow> bool" where
  "is_rooted p = (p \<noteq> [] \<and> hd p = CHR ''/'')"

definition at_or_below :: "string \<Rightarrow> string \<Rightarrow> bool" where
  "at_or_below root p =
     (is_rooted p = is_rooted root \<and> steps_up p = steps_up root \<and>
      prefix (path_names root) (path_names p))"

text \<open>
  The path guard's rule on the strings: an entry name passes when its path, joined to the
  destination and cleaned, is the cleaned destination or begins with the cleaned
  destination and a separator.
\<close>

definition path_admitted :: "string \<Rightarrow> string \<Rightarrow> bool" where
  "path_admitted dst name =
     (Clean (Join dst name) = Clean dst \<or> prefix (Clean dst @ ''/'') (Clean (Join dst name)))"

text \<open>Sample data: archives and their entries.\<close>

definition example_file :: "string \<Rightarrow> string \<Rightarrow> tar_entry" where
  "example_file name body =
     \<lparr>hdr_Name = name, hdr_Mode = 420, hdr_Typeflag = TypeReg, hdr_Linkname = [],
      tar_data = map of_char body, tar_read_error = False\<rparr>"

definition example_dir :: "string \<Rightarrow> tar_entry" where
  "example_dir name =
     \<lparr>hdr_Name = name, hdr_Mode = 493, hdr_Typeflag = TypeDir, hdr_Linkname = [],
      tar_data = [], tar_read_error = False\<rparr>"

definition example_link :: "string \<Rightarrow> string \<Rightarrow> tar_entry" where
  "example_link name target =
     \<lparr>hdr_Name = name, hdr_Mode = 511, hdr_Typeflag = TypeSymlink, hdr_Linkname = target,
      tar_data = [], tar_read_error = False\<rparr>"

definition example_zip_file :: "string \<Rightarrow> string \<Rightarrow> zip_file" where
  "example_zip_file name body =
     \<lparr>zip_Name = name, zip_IsDir = False, zip_Mode = 420, zip_open_error = False,
      zip_data = map of_char body, zip_read_error = False\<rparr>"

definition example_tgz :: "tar_entry list \<Rightarrow> archive" where
  "example_tgz entries =
     \<lparr>raw = [0x1f, 0x8b, 0x08, 0x00], gzip_ok = True, tar_items = map Header entries,
      read_all_ok = True, zip_files = None\<rparr>"

definition example_zip :: "zip_file list \<Rightarrow> archive" where
  "example_zip files =
     \<lparr>raw = [0x50, 0x4b, 0x03, 0x04], gzip_ok = False, tar_items = [],
      read_all_ok = True, zip_files = Some files\<rparr>"

text \<open>The world once \<open>Extract\<close> has made the destination \<open>/dst\<close> in an empty tree.\<close>

definition dst_made :: "tree world" where
  "dst_made = \<lparr>fs = [''/dst'' \<mapsto> DirNode 493], calls = [MkdirAll ''/dst'' 493]\<rparr>"

text \<open>Sample data: the releases of the package's own test, with a draft, a prerelease, a
  tag without the \<open>v\<close> and a tag that is no version.\<close>

definition example_release :: "string \<Rightarrow> bool \<Rightarrow> bool \<Rightarrow> int \<Rightarrow> Release" where
  "example_release tag d p t =
     \<lparr>TagName = tag, release_Name = [], Assets = [], Draft = d, Prerelease = p, PublishedAt = t\<rparr>"

definition example_releases :: "Release list" where
  "example_releases =
     [example_release ''v1.0.0'' False False 20230101,
      example_release ''v3.0.0'' True False 20230401,
      example_release ''v2.0.0'' False False 20230201,
      example_release ''nightly'' False False 20230501,
      example_release ''v2.1.0-rc1'' False True 20230301,
      example_release ''1.5.0'' False False 20230115]"

text \<open>Sample data: worlds reached while extracting into \<open>/dst\<close>, and an installer whose
  finder and downloader ignore the context.\<close>

definition after_a :: "tree world" where
  "after_a =
     \<lparr>fs = [''/dst'' \<mapsto> DirNode 493, ''/dst/a.txt'' \<mapsto> FileNode 420 [65]],
      calls = [MkdirAll ''/dst'' 493, MkdirAll ''/dst'' 493, OpenFile ''/dst/a.txt'' 420,
               WriteFile ''/dst/a.txt'' [65]]\<rparr>"


definition first_asset :: "Asset list \<Rightarrow> unit + Asset" where
  "first_asset assets = (case assets of [] \<Rightarrow> Inl () | a # _ \<Rightarrow> Inr a)"

definition example_installer :: "archive \<Rightarrow> (cancel_signal, tree) installer" where
  "example_installer a =
     \<lparr>inst_finder = (\<lambda>ctx owner repoName.
        Inr ((example_release ''v1.0.0'' False False 20230101)
          \<lparr>Assets := [\<lparr>asset_Name = ''app.tar.gz'',
                       asset_URL = ''https://github.com/o/r/releases/download/v1.0.0/app.tar.gz'',
                       ContentType = ''application/gzip'', Size = 1024\<rparr>]\<rparr>)),
      inst_downloader = (\<lambda>ctx url. Inr a),
      inst_ping = True,
      inst_sys = posix owner_env\<rparr>"

definition example_repo :: Repo where
  "example_repo = \<lparr>repo_URL = ''https://github.com/o/r'', OutputDir = ''/dst''\<rparr>"

definition example_config :: Config where
  "example_config = \<lparr>Github = [example_repo], MirrorURL = []\<rparr>"

definition after_a_b :: "tree world" where
  "after_a_b =
     \<lparr>fs = [''/dst'' \<mapsto> DirNode 493, ''/dst/a.txt'' \<mapsto> FileNode 420 [65],
            ''/dst/b.txt'' \<mapsto> FileNode 420 [66]],
      calls = [MkdirAll ''/dst'' 493,
               MkdirAll ''/dst'' 493, OpenFile ''/dst/a.txt'' 420, WriteFile ''/dst/a.txt'' [65],
               MkdirAll ''/dst'' 493, OpenFile ''/dst/b.txt'' 420, WriteFile ''/dst/b.txt'' [66]]\<rparr>"

definition after_link :: "tree world" where
  "after_link =
     \<lparr>fs = [''/dst'' \<mapsto> DirNode 493, ''/dst/a.txt'' \<mapsto> FileNode 420 [65],
            ''/dst/link'' \<mapsto> LinkNode ''a.txt''],
      calls = [MkdirAll ''/dst'' 493, MkdirAll ''/dst'' 493, OpenFile ''/dst/a.txt'' 420,
               WriteFile ''/dst/a.txt'' [65], Symlink ''a.txt'' ''/dst/link'']\<rparr>"

definition after_link_again :: "tree world" where
  "after_link_again =
     \<lparr>fs = [''/dst'' \<mapsto> DirNode 493, ''/dst/a.txt'' \<mapsto> FileNode 420 [65],
            ''/dst/link'' \<mapsto> LinkNode ''a.txt''],
      calls = [MkdirAll ''/dst'' 493, MkdirAll ''/dst'' 493, OpenFile ''/dst/a.txt'' 420,
               WriteFile ''/dst/a.txt'' [65], Symlink ''a.txt'' ''/dst/link'',
               MkdirAll ''/dst'' 493, MkdirAll ''/dst'' 493, OpenFile ''/dst/a.txt'' 420,
               WriteFile ''/dst/a.txt'' [65], Symlink ''a.txt'' ''/dst/link'']\<rparr>"

definition after_a_sub :: "tree world" where
  "after_a_sub =
     \<lparr>fs = [''/dst'' \<mapsto> DirNode 493, ''/dst/a.txt'' \<mapsto> FileNode 420 [65],
            ''/dst/sub'' \<mapsto> DirNode 493],
      calls = [MkdirAll ''/dst'' 493, MkdirAll ''/dst'' 493, OpenFile ''/dst/a.txt'' 420,
               WriteFile ''/dst/a.txt'' [65], MkdirAll ''/dst/sub'' 493]\<rparr>"









text \<open>A regular file without the owner's write bit (octal 0444), and the worlds it leads to.\<close>

definition example_readonly :: "string \<Rightarrow> string \<Rightarrow> tar_entry" where
  "example_readonly name body = (example_file name body)\<lparr>hdr_Mode := 292\<rparr>"

definition after_r :: "tree world" where
  "after_r =
     \<lparr>fs = [''/dst'' \<mapsto> DirNode 493, ''/dst/r.txt'' \<mapsto> FileNode 292 [82]],
      calls = [MkdirAll ''/dst'' 493, MkdirAll ''/dst'' 493, OpenFile ''/dst/r.txt'' 292,
               WriteFile ''/dst/r.txt'' [82]]\<rparr>"

definition after_r_again :: "tree world" where
  "after_r_again =
     \<lparr>fs = [''/dst'' \<mapsto> DirNode 493, ''/dst/r.txt'' \<mapsto> FileNode 292 [82]],
      calls = [MkdirAll ''/dst'' 493, MkdirAll ''/dst'' 493, OpenFile ''/dst/r.txt'' 292,
               WriteFile ''/dst/r.txt'' [82],
               MkdirAll ''/dst'' 493, MkdirAll ''/dst'' 493, OpenFile ''/dst/r.txt'' 292]\<rparr>"




section \<open>Properties of the configuration and of the release finder\<close>

subsection \<open>The download URL\<close>

text \<open>
  C9, as the claim states it, fails: with a mirror configured and the connectivity probe
  answering yes, \<open>installRepo\<close> downloads from the asset's own URL, not through the mirror.
\<close>

theorem mirror_bypassed_counterexample:
  "MirrorURL \<lparr>Github = [], MirrorURL = ''https://ghfast.top''\<rparr> \<noteq> [] \<and>
   installRepo_downloadURL True \<lparr>Github = [], MirrorURL = ''https://ghfast.top''\<rparr>
       \<lparr>repo_URL = ''https://github.com/o/r'', OutputDir = ''/opt/r''\<rparr>
       ''https://github.com/o/r/releases/download/v1/a.tar.gz''
     \<noteq> ''https://ghfast.top'' @ ''/'' @ ''https://github.com/o/r/releases/download/v1/a.tar.gz''"
  by (simp add: installRepo_downloadURL_def)

text \<open>
  C9, amended: the installer that probes connectivity downloads from the asset URL unchanged
  when the probe succeeds or no mirror is configured, and from mirror URL, \<open>/\<close>, asset URL
  otherwise; the installer without the probe follows \<open>GetDownloadURL\<close> alone (the asset URL
  unchanged without a mirror, mirror URL, \<open>/\<close>, asset URL with one).
\<close>

theorem installRepo_downloadURL_rule:
  "installRepo_downloadURL pingGoogle cfg repo u =
     (if pingGoogle \<or> MirrorURL cfg = [] then u else MirrorURL cfg @ ''/'' @ u) \<and>
   installRepo_downloadURL_unfiltered cfg repo u =
     (if MirrorURL cfg = [] then u else MirrorURL cfg @ ''/'' @ u)"
  by (simp add: installRepo_downloadURL_def installRepo_downloadURL_unfiltered_def
      GetDownloadURL_def)

subsection \<open>Tags\<close>

lemma compareInt_refl: "compareInt x x = 0"
  by (simp add: compareInt_def)

lemma Compare_refl: "Compare v v = 0"
  by (simp add: Compare_def compareInt_def comparePrerelease_def split: option.splits)

lemma release_less_irrefl: "\<not> release_less r r"
  by (simp add: release_less_def Let_def Compare_refl)

lemma release_less_tag:
  "normalizeTag (TagName a) = normalizeTag (TagName a') \<Longrightarrow> PublishedAt a = PublishedAt a' \<Longrightarrow>
   release_less a x = release_less a' x \<and> release_less x a = release_less x a'"
  by (simp add: release_less_def)

text \<open>
  C10: a non-empty tag that does not begin with \<open>v\<close> is normalised to \<open>v\<close> followed by the
  tag, which is also what its \<open>v\<close>-prefixed form normalises to, so the comparison of
  \<open>findLatestRelease\<close> treats a release the same under either tag; \<open>1.2.3\<close> becomes the valid
  version \<open>v1.2.3\<close>; the empty tag stays empty and is not a valid version.
\<close>

theorem normalizeTag_bare:
  assumes "tag \<noteq> []" and "\<not> HasPrefix tag ''v''"
  shows "normalizeTag tag = ''v'' @ tag \<and>
         normalizeTag (''v'' @ tag) = ''v'' @ tag \<and>
         release_less (r\<lparr>TagName := tag\<rparr>) x = release_less (r\<lparr>TagName := ''v'' @ tag\<rparr>) x \<and>
         release_less x (r\<lparr>TagName := tag\<rparr>) = release_less x (r\<lparr>TagName := ''v'' @ tag\<rparr>) \<and>
         normalizeTag ''1.2.3'' = ''v1.2.3'' \<and> IsValid (normalizeTag ''1.2.3'') \<and>
         Compare (normalizeTag ''1.2.3'') (normalizeTag ''v1.2.3'') = 0 \<and>
         normalizeTag [] = [] \<and> \<not> IsValid (normalizeTag [])"
proof -
  have n1: "normalizeTag tag = ''v'' @ tag"
    using assms by (simp add: normalizeTag_def)
  have n2: "normalizeTag (''v'' @ tag) = ''v'' @ tag"
    by (simp add: normalizeTag_def HasPrefix_def)
  have same: "normalizeTag (TagName (r\<lparr>TagName := tag\<rparr>)) =
              normalizeTag (TagName (r\<lparr>TagName := ''v'' @ tag\<rparr>))"
    using n1 n2 by simp
  have l: "release_less (r\<lparr>TagName := tag\<rparr>) x = release_less (r\<lparr>TagName := ''v'' @ tag\<rparr>) x \<and>
           release_less x (r\<lparr>TagName := tag\<rparr>) = release_less x (r\<lparr>TagName := ''v'' @ tag\<rparr>)"
    by (rule release_less_tag [OF same]) simp
  have e1: "normalizeTag ''1.2.3'' = ''v1.2.3''"
    by (simp add: normalizeTag_def HasPrefix_def)
  have e2: "IsValid (normalizeTag ''1.2.3'')"
    by (simp add: IsValid_def normalizeTag_def HasPrefix_def parse_def parseInt_def isDigit_def
        parseTail_def)
  have e3: "Compare (normalizeTag ''1.2.3'') (normalizeTag ''v1.2.3'') = 0"
    by (simp add: normalizeTag_def HasPrefix_def Compare_refl)
  have e4: "normalizeTag [] = [] \<and> \<not> IsValid (normalizeTag [])"
    by (simp add: normalizeTag_def IsValid_def parse_def)
  from n1 n2 l e1 e2 e3 e4 show ?thesis by blast
qed

theorem normalizeTag_bare_witness:
  "''1.5.0'' \<noteq> [] \<and> \<not> HasPrefix ''1.5.0'' ''v'' \<and>
   normalizeTag ''1.5.0'' = ''v1.5.0'' \<and>
   release_less (example_release ''1.5.0'' False False 20230115)
                (example_release ''v1.0.0'' False False 20230101) =
   release_less (example_release ''v1.5.0'' False False 20230115)
                (example_release ''v1.0.0'' False False 20230101)"
proof -
  have h1: "''1.5.0'' \<noteq> []" by simp
  have h2: "\<not> HasPrefix ''1.5.0'' ''v''" by (simp add: HasPrefix_def)
  from normalizeTag_bare [OF h1 h2,
      of "example_release ''1.5.0'' False False 20230115"
         "example_release ''v1.0.0'' False False 20230101"]
  show ?thesis using h1 h2 by (simp add: example_release_def)
qed

subsection \<open>The latest stable release\<close>

lemma findLatestRelease_max:
  assumes c: "2 \<le> length xs \<Longrightarrow> sort_contract sortSlice xs" and ne: "xs \<noteq> []"
  shows "\<exists>r. findLatestRelease sortSlice xs = Inr r \<and> r \<in> set xs \<and>
             (\<forall>r'\<in>set xs. \<not> release_less r' r)"
proof (cases xs)
  case Nil
  with ne show ?thesis by simp
next
  case (Cons a as)
  show ?thesis
  proof (cases as)
    case Nil
    with Cons show ?thesis
      by (simp add: findLatestRelease_def release_less_irrefl)
  next
    case (Cons b bs)
    let ?ys = "sortSlice release_less xs"
    have "2 \<le> length xs" using \<open>xs = a # as\<close> Cons by simp
    from c [OF this] have m: "mset ?ys = mset xs"
      and srt: "sorted_wrt (\<lambda>a b. \<not> release_less b a) ?ys"
      by (simp_all add: sort_contract_def)
    from m have seteq: "set ?ys = set xs" by (rule mset_eq_setD)
    with ne have "?ys \<noteq> []" by auto
    then obtain r rest where ys: "?ys = r # rest" by (cases ?ys) auto
    have res: "findLatestRelease sortSlice xs = Inr r"
      using \<open>xs = a # as\<close> \<open>as = b # bs\<close> ys by (simp add: findLatestRelease_def)
    have rin: "r \<in> set xs" using seteq ys by auto
    have "\<not> release_less r' r" if "r' \<in> set xs" for r'
    proof -
      from that seteq ys have "r' = r \<or> r' \<in> set rest" by auto
      then show ?thesis
      proof
        assume "r' = r" then show ?thesis by (simp add: release_less_irrefl)
      next
        assume "r' \<in> set rest"
        with srt ys show ?thesis by simp
      qed
    qed
    with res rin show ?thesis by blast
  qed
qed

text \<open>
  C5: on a successful response, whenever the call of \<open>sort.Slice\<close> (made when two or more
  releases are stable) keeps its contract,
  \<open>LatestStable\<close> fails when no release is stable and otherwise returns a release of the
  response that is neither draft nor prerelease and that no other such release ranks
  before. The ranking is the one of the claim: between two valid versions (after
  normalising the tags) the sign of the version comparison, a valid version before an
  invalid one, and between two invalid ones the later publication first.
\<close>

theorem LatestStable_returns_latest:
  assumes c: "2 \<le> length (filterStableReleases releases) \<Longrightarrow>
              sort_contract sortSlice (filterStableReleases releases)"
  shows "(filterStableReleases releases = [] \<longrightarrow>
            (\<exists>e. LatestStable sortSlice (Inr (200, Some releases)) = Inl e)) \<and>
         (filterStableReleases releases \<noteq> [] \<longrightarrow>
            (\<exists>r. LatestStable sortSlice (Inr (200, Some releases)) = Inr r \<and>
                 r \<in> set releases \<and> \<not> Draft r \<and> \<not> Prerelease r \<and>
                 (\<forall>r'\<in>set releases. \<not> Draft r' \<and> \<not> Prerelease r' \<longrightarrow> \<not> release_less r' r))) \<and>
         (\<forall>a b. (IsValid (normalizeTag (TagName a)) \<and> IsValid (normalizeTag (TagName b)) \<longrightarrow>
                   release_less a b =
                     (0 < Compare (normalizeTag (TagName a)) (normalizeTag (TagName b)))) \<and>
                (IsValid (normalizeTag (TagName a)) \<and> \<not> IsValid (normalizeTag (TagName b)) \<longrightarrow>
                   release_less a b \<and> \<not> release_less b a) \<and>
                (\<not> IsValid (normalizeTag (TagName a)) \<and> \<not> IsValid (normalizeTag (TagName b)) \<longrightarrow>
                   release_less a b = (PublishedAt b < PublishedAt a)))"
proof (intro conjI impI allI)
  assume "filterStableReleases releases = []"
  then show "\<exists>e. LatestStable sortSlice (Inr (200, Some releases)) = Inl e"
    by (simp add: LatestStable_def)
next
  assume ne: "filterStableReleases releases \<noteq> []"
  then have rne: "releases \<noteq> []" by (auto simp: filterStableReleases_def)
  from findLatestRelease_max [OF c ne] obtain r where
    r: "findLatestRelease sortSlice (filterStableReleases releases) = Inr r"
       "r \<in> set (filterStableReleases releases)"
       "\<forall>r'\<in>set (filterStableReleases releases). \<not> release_less r' r"
    by blast
  have "LatestStable sortSlice (Inr (200, Some releases)) = Inr r"
    using ne rne r(1) by (simp add: LatestStable_def)
  moreover have "r \<in> set releases \<and> \<not> Draft r \<and> \<not> Prerelease r"
    using r(2) by (simp add: filterStableReleases_def)
  moreover have "\<forall>r'\<in>set releases. \<not> Draft r' \<and> \<not> Prerelease r' \<longrightarrow> \<not> release_less r' r"
    using r(3) by (simp add: filterStableReleases_def)
  ultimately show "\<exists>r. LatestStable sortSlice (Inr (200, Some releases)) = Inr r \<and>
                 r \<in> set releases \<and> \<not> Draft r \<and> \<not> Prerelease r \<and>
                 (\<forall>r'\<in>set releases. \<not> Draft r' \<and> \<not> Prerelease r' \<longrightarrow> \<not> release_less r' r)"
    by blast
qed (simp_all add: release_less_def Let_def)

theorem LatestStable_returns_latest_witness:
  "2 \<le> length (filterStableReleases example_releases) \<and>
   sort_contract insertionSort (filterStableReleases example_releases) \<and>
   filterStableReleases example_releases \<noteq> [] \<and>
   LatestStable insertionSort (Inr (200, Some example_releases)) =
     Inr (example_release ''v2.0.0'' False False 20230201)"
proof -
  have c: "sort_contract insertionSort (filterStableReleases example_releases)"
    by code_simp
  have ne: "filterStableReleases example_releases \<noteq> []"
    by code_simp
  have v: "LatestStable insertionSort (Inr (200, Some example_releases)) =
     Inr (example_release ''v2.0.0'' False False 20230201)"
    by code_simp
  have l: "2 \<le> length (filterStableReleases example_releases)"
    by code_simp
  from LatestStable_returns_latest [OF c] l c ne v show ?thesis by blast
qed

section \<open>Properties of paths\<close>

lemma splitc_ne [simp]: "splitc c xs \<noteq> []"
  by (induction xs) (auto split: list.splits)

lemma splitc_append: "splitc c (a @ c # b) = splitc c a @ splitc c b"
  by (induction a) (auto split: list.splits)

lemma splitc_nosep: "c \<notin> set xs \<Longrightarrow> splitc c xs = [xs]"
  by (induction xs) auto

lemma splitc_segs_nosep: "s \<in> set (splitc c xs) \<Longrightarrow> c \<notin> set s"
proof (induction xs arbitrary: s)
  case Nil then show ?case by simp
next
  case (Cons x xs)
  show ?case
  proof (cases "x = c")
    case True
    with Cons show ?thesis by auto
  next
    case False
    obtain y ys where sp: "splitc c xs = y # ys" by (cases "splitc c xs") auto
    with Cons.prems False have "s = x # y \<or> s \<in> set ys" by simp
    then show ?thesis
    proof
      assume s: "s = x # y"
      have "y \<in> set (splitc c xs)" using sp by simp
      from Cons.IH [OF this] False s show ?thesis by auto
    next
      assume "s \<in> set ys"
      then have "s \<in> set (splitc c xs)" using sp by simp
      from Cons.IH [OF this] show ?thesis .
    qed
  qed
qed

lemma splitc_joinc:
  "segs \<noteq> [] \<Longrightarrow> \<forall>s\<in>set segs. CHR ''/'' \<notin> set s \<Longrightarrow> splitc CHR ''/'' (joinc segs) = segs"
proof (induction segs rule: joinc.induct)
  case 1 then show ?case by simp
next
  case (2 x) then show ?case by (simp add: splitc_nosep)
next
  case (3 x y ys)
  have "splitc CHR ''/'' (x @ CHR ''/'' # joinc (y # ys)) = splitc CHR ''/'' x @ splitc CHR ''/'' (joinc (y # ys))"
    by (rule splitc_append)
  with 3 show ?case by (simp add: splitc_nosep)
qed



lemma nf_Nil: "nf rooted []"
  by (simp add: nf_def)

lemma nf_step:
  assumes "nf rooted out" and "CHR ''/'' \<notin> set seg"
  shows "nf rooted (clean_step rooted out seg)"
proof -
  from assms(1) obtain ps ds where o: "out = ps @ ds" and p: "list_all plain ps"
    and d: "list_all (\<lambda>s. s = ''..'') ds" and r: "rooted \<longrightarrow> ds = []"
    by (auto simp: nf_def)
  consider (skip) "seg = [] \<or> seg = ''.''" | (dd) "seg = ''..''" | (pl) "plain seg"
    using assms(2) by (auto simp: plain_def)
  then show ?thesis
  proof cases
    case skip
    then show ?thesis using assms(1) by (auto simp: clean_step_def)
  next
    case dd
    show ?thesis
    proof (cases ps)
      case Nil
      show ?thesis
      proof (cases rooted)
        case True
        with r o Nil dd show ?thesis by (simp add: clean_step_def nf_def)
      next
        case False
        have "out = [] \<or> hd out = ''..''" using o Nil d by (cases ds) auto
        then have "clean_step rooted out seg = [] @ (''..'' # ds)"
          using dd False o Nil by (auto simp: clean_step_def)
        moreover have "list_all (\<lambda>s. s = ''..'') (''..'' # ds)" using d by simp
        moreover have "list_all plain []" by simp
        ultimately show ?thesis using False unfolding nf_def by blast
      qed
    next
      case (Cons q qs)
      with p have "q \<noteq> ''..''" by (simp add: plain_def)
      with Cons o dd have "clean_step rooted out seg = qs @ ds"
        by (simp add: clean_step_def)
      moreover from Cons p have "list_all plain qs" by simp
      ultimately show ?thesis using d r by (auto simp: nf_def)
    qed
  next
    case pl
    then have "clean_step rooted out seg = (seg # ps) @ ds"
      using o by (auto simp: clean_step_def plain_def)
    moreover have "list_all plain (seg # ps)" using pl p by simp
    ultimately show ?thesis using d r unfolding nf_def by blast
  qed
qed

lemma nf_foldl:
  "nf rooted acc \<Longrightarrow> \<forall>s\<in>set segs. CHR ''/'' \<notin> set s \<Longrightarrow> nf rooted (foldl (clean_step rooted) acc segs)"
  by (induction segs arbitrary: acc) (auto simp: nf_step)

lemma foldl_plain:
  "list_all plain ps \<Longrightarrow> foldl (clean_step r) acc ps = rev ps @ acc"
  by (induction ps arbitrary: acc) (auto simp: clean_step_def plain_def)

lemma foldl_dots:
  "list_all (\<lambda>s. s = ''..'') ds \<Longrightarrow> list_all (\<lambda>s. s = ''..'') acc \<Longrightarrow> \<not> r \<Longrightarrow>
   foldl (clean_step r) acc ds = rev ds @ acc"
proof (induction ds arbitrary: acc)
  case Nil then show ?case by simp
next
  case (Cons d ds)
  then have "clean_step r acc d = ''..'' # acc"
    by (cases acc) (auto simp: clean_step_def)
  with Cons show ?case by simp
qed

lemma foldl_nf:
  assumes "nf r out"
  shows "foldl (clean_step r) [] (rev out) = out"
proof -
  from assms obtain ps ds where o: "out = ps @ ds" and p: "list_all plain ps"
    and d: "list_all (\<lambda>s. s = ''..'') ds" and r: "r \<longrightarrow> ds = []"
    by (auto simp: nf_def)
  have 1: "foldl (clean_step r) [] (rev ds) = ds"
  proof (cases "ds = []")
    case True then show ?thesis by simp
  next
    case False
    with r have "\<not> r" by simp
    moreover have "list_all (\<lambda>s. s = ''..'') (rev ds)" using d by (simp add: list_all_iff)
    ultimately show ?thesis using foldl_dots [of "rev ds" "[]" r] by simp
  qed
  have "list_all plain (rev ps)" using p by (simp add: list_all_iff)
  from foldl_plain [OF this] have "foldl (clean_step r) ds (rev ps) = ps @ ds" by simp
  with 1 o show ?thesis by simp
qed

lemma nf_props:
  assumes "nf r out" and "s \<in> set out"
  shows "s \<noteq> [] \<and> CHR ''/'' \<notin> set s"
proof -
  from assms(1) obtain ps ds where o: "out = ps @ ds" and p: "list_all plain ps"
    and d: "list_all (\<lambda>s. s = ''..'') ds"
    by (auto simp: nf_def)
  from assms(2) o have "s \<in> set ps \<or> s \<in> set ds" by simp
  then show ?thesis
  proof
    assume "s \<in> set ps"
    with p have "plain s" by (simp add: list_all_iff)
    then show ?thesis by (simp add: plain_def)
  next
    assume "s \<in> set ds"
    with d have "s = ''..''" by (simp add: list_all_iff)
    then show ?thesis by simp
  qed
qed

lemma joinc_hd: "segs \<noteq> [] \<Longrightarrow> hd segs \<noteq> [] \<Longrightarrow> joinc segs \<noteq> [] \<and> hd (joinc segs) = hd (hd segs)"
  by (induction segs rule: joinc.induct) auto

lemma Clean_root [simp]: "Clean ''/'' = ''/''"
  by (simp add: Clean_def clean_step_def)

lemma Clean_dot [simp]: "Clean ''.'' = ''.''"
  by (simp add: Clean_def clean_step_def)

lemma Clean_idem: "Clean (Clean p) = Clean p"
proof (cases "p = []")
  case True
  then show ?thesis by (simp add: Clean_def clean_step_def)
next
  case False
  define rooted where "rooted = (hd p = CHR ''/'')"
  define out where "out = foldl (clean_step rooted) [] (splitc CHR ''/'' p)"
  have nfo: "nf rooted out"
    unfolding out_def by (rule nf_foldl [OF nf_Nil]) (auto dest: splitc_segs_nosep)
  have cp: "Clean p = (if (if rooted then ''/'' else []) @ joinc (rev out) = [] then ''.''
             else (if rooted then ''/'' else []) @ joinc (rev out))"
    using False by (simp add: Clean_def Let_def rooted_def out_def)
  show ?thesis
  proof (cases "out = []")
    case True
    with cp show ?thesis by (cases rooted) simp_all
  next
    case ne: False
    let ?segs = "rev out"
    have segs_ne: "?segs \<noteq> []" using ne by simp
    have nosep: "\<forall>s\<in>set ?segs. CHR ''/'' \<notin> set s" using nf_props [OF nfo] by simp
    have hdne: "hd ?segs \<noteq> []" using nf_props [OF nfo, of "hd ?segs"] segs_ne
      by (metis hd_in_set set_rev)
    have hdns: "hd (hd ?segs) \<noteq> CHR ''/''"
      using nosep segs_ne hdne by (metis hd_in_set)
    from joinc_hd [OF segs_ne hdne] have j: "joinc ?segs \<noteq> []" "hd (joinc ?segs) = hd (hd ?segs)"
      by simp_all
    have sp: "splitc CHR ''/'' (joinc ?segs) = ?segs" by (rule splitc_joinc [OF segs_ne nosep])
    show ?thesis
    proof (cases rooted)
      case True
      with cp have c: "Clean p = CHR ''/'' # joinc ?segs" by simp
      have "splitc CHR ''/'' (CHR ''/'' # joinc ?segs) = [] # ?segs" using sp by simp
      then have "foldl (clean_step True) [] (splitc CHR ''/'' (CHR ''/'' # joinc ?segs)) = out"
        using foldl_nf [OF nfo] True by (simp add: clean_step_def)
      then have "Clean (CHR ''/'' # joinc ?segs) = CHR ''/'' # joinc ?segs"
        by (simp add: Clean_def)
      with c show ?thesis by simp
    next
      case False
      with cp j have c: "Clean p = joinc ?segs" by simp
      have "foldl (clean_step False) [] (splitc CHR ''/'' (joinc ?segs)) = out"
        using foldl_nf [OF nfo] False sp by simp
      then have "Clean (joinc ?segs) = joinc ?segs"
        using j hdns by (simp add: Clean_def)
      with c show ?thesis by simp
    qed
  qed
qed

lemma Clean_append_dot: "p \<noteq> [] \<Longrightarrow> Clean (p @ ''/.'') = Clean p"
proof -
  assume ne: "p \<noteq> []"
  have "splitc CHR ''/'' (p @ CHR ''/'' # ''.'') = splitc CHR ''/'' p @ splitc CHR ''/'' ''.''"
    by (rule splitc_append)
  then show ?thesis using ne by (simp add: Clean_def clean_step_def)
qed

lemma Clean_append_dotslash: "p \<noteq> [] \<Longrightarrow> Clean (p @ ''/./'') = Clean p"
proof -
  assume ne: "p \<noteq> []"
  have "splitc CHR ''/'' (p @ CHR ''/'' # ''./'') = splitc CHR ''/'' p @ splitc CHR ''/'' ''./''"
    by (rule splitc_append)
  then show ?thesis using ne by (simp add: Clean_def clean_step_def)
qed

lemma Clean_Join_dot:
  "n = ''.'' \<or> n = ''./'' \<Longrightarrow> Clean (Join dst n) = Clean dst"
proof (cases "dst = []")
  case True
  assume "n = ''.'' \<or> n = ''./''"
  with True show ?thesis by (auto simp: Join_def Clean_def clean_step_def)
next
  case False
  assume "n = ''.'' \<or> n = ''./''"
  with False show ?thesis
    using Clean_append_dot [of dst] Clean_append_dotslash [of dst]
    by (auto simp: Join_def Clean_idem)
qed


section \<open>Properties of the extractor\<close>

lemma tar_loop_append:
  "extractTarGzStream_loop sys (pre @ post) dst w =
     (case extractTarGzStream_loop sys pre dst w of
        (Some e, w') \<Rightarrow> (Some e, w')
      | (None, w') \<Rightarrow> extractTarGzStream_loop sys post dst w')"
proof (induction pre arbitrary: w)
  case Nil then show ?case by simp
next
  case (Cons a pre)
  show ?case
  proof (cases a)
    case (Header h)
    then show ?thesis using Cons by (simp split: prod.splits option.splits)
  next
    case NextError
    then show ?thesis by simp
  qed
qed

lemma zip_loop_append:
  "extractZipFromReader_loop sys (pre @ post) dst w =
     (case extractZipFromReader_loop sys pre dst w of
        (Some e, w') \<Rightarrow> (Some e, w')
      | (None, w') \<Rightarrow> extractZipFromReader_loop sys post dst w')"
  by (induction pre arbitrary: w) (simp_all split: prod.splits option.splits)

lemma prefix2: "2 \<le> length d \<Longrightarrow> prefix [a, b] d = (d ! 0 = a \<and> d ! 1 = b)"
  by (cases d; cases "tl d") auto

lemma prefix4:
  "4 \<le> length d \<Longrightarrow> prefix [a, b, c, e] d = (d ! 0 = a \<and> d ! 1 = b \<and> d ! 2 = c \<and> d ! 3 = e)"
proof -
  assume l: "4 \<le> length d"
  then have "Suc (Suc (Suc (Suc 0))) \<le> length d" by simp
  then obtain x1 x2 x3 x4 r where "d = x1 # x2 # x3 # x4 # r"
    by (auto simp: Suc_le_length_iff)
  then show ?thesis by auto
qed

lemma detectFormatFromBytes_take:
  "4 \<le> length d \<Longrightarrow> detectFormatFromBytes (take 4 d) = detectFormatFromBytes d"
  by (simp add: detectFormatFromBytes_def)

text \<open>
  C3: \<open>detectFormat\<close> answers a prefix of fewer than 4 bytes with the too-small error, a
  longer one that begins \<open>1f 8b\<close> with \<open>tar.gz\<close>, one that begins \<open>PK 03 04\<close> with \<open>zip\<close>,
  and any other with the unknown-format error, a different one. \<open>Extract\<close>, once the
  destination is made, fails on a source of fewer than 4 bytes at the peek, takes the tar
  path or the zip path by the same bytes, and answers any other source with the
  unsupported-format error, again a different one.
\<close>

theorem format_sniffing:
  assumes mk: "perform sys (MkdirAll dst 493) w = (None, w1)"
  shows "(length data < 4 \<longrightarrow> detectFormat data = Inl FileTooSmall) \<and>
         (4 \<le> length data \<and> prefix [0x1f, 0x8b] data \<longrightarrow> detectFormat data = Inr ''tar.gz'') \<and>
         (4 \<le> length data \<and> prefix [0x50, 0x4b, 0x03, 0x04] data \<longrightarrow>
            detectFormat data = Inr ''zip'') \<and>
         (4 \<le> length data \<and> \<not> prefix [0x1f, 0x8b] data \<and> \<not> prefix [0x50, 0x4b, 0x03, 0x04] data \<longrightarrow>
            detectFormat data = Inl UnknownFormat) \<and>
         FileTooSmall \<noteq> UnknownFormat \<and>
         (length (raw src) < 4 \<longrightarrow> Extract sys src dst w = (Some PeekFailed, w1)) \<and>
         (4 \<le> length (raw src) \<and> prefix [0x1f, 0x8b] (raw src) \<longrightarrow>
            Extract sys src dst w = extractTarGzStream sys src dst w1) \<and>
         (4 \<le> length (raw src) \<and> prefix [0x50, 0x4b, 0x03, 0x04] (raw src) \<longrightarrow>
            Extract sys src dst w = extractZipFromReader sys src dst w1) \<and>
         (4 \<le> length (raw src) \<and> \<not> prefix [0x1f, 0x8b] (raw src) \<and>
            \<not> prefix [0x50, 0x4b, 0x03, 0x04] (raw src) \<longrightarrow>
            Extract sys src dst w = (Some UnsupportedFormat, w1)) \<and>
         PeekFailed \<noteq> UnsupportedFormat"
proof -
  have d: "(length data < 4 \<longrightarrow> detectFormat data = Inl FileTooSmall) \<and>
         (4 \<le> length data \<and> prefix [0x1f, 0x8b] data \<longrightarrow> detectFormat data = Inr ''tar.gz'') \<and>
         (4 \<le> length data \<and> prefix [0x50, 0x4b, 0x03, 0x04] data \<longrightarrow>
            detectFormat data = Inr ''zip'') \<and>
         (4 \<le> length data \<and> \<not> prefix [0x1f, 0x8b] data \<and> \<not> prefix [0x50, 0x4b, 0x03, 0x04] data \<longrightarrow>
            detectFormat data = Inl UnknownFormat)"
    by (auto simp: detectFormat_def prefix2 prefix4)
  have e1: "length (raw src) < 4 \<longrightarrow> Extract sys src dst w = (Some PeekFailed, w1)"
    by (simp add: Extract_def mk Peek_def)
  have e2: "4 \<le> length (raw src) \<and> prefix [0x1f, 0x8b] (raw src) \<longrightarrow>
            Extract sys src dst w = extractTarGzStream sys src dst w1"
    by (auto simp: Extract_def mk Peek_def Let_def detectFormatFromBytes_def prefix2)
  have e3: "4 \<le> length (raw src) \<and> prefix [0x50, 0x4b, 0x03, 0x04] (raw src) \<longrightarrow>
            Extract sys src dst w = extractZipFromReader sys src dst w1"
    by (auto simp: Extract_def mk Peek_def Let_def detectFormatFromBytes_def prefix4)
  have e4: "4 \<le> length (raw src) \<and> \<not> prefix [0x1f, 0x8b] (raw src) \<and>
            \<not> prefix [0x50, 0x4b, 0x03, 0x04] (raw src) \<longrightarrow>
            Extract sys src dst w = (Some UnsupportedFormat, w1)"
    by (auto simp: Extract_def mk Peek_def Let_def detectFormatFromBytes_def prefix2 prefix4)
  from d e1 e2 e3 e4 show ?thesis by simp
qed


lemma mk_dst: "perform (posix owner_env) (MkdirAll ''/dst'' 493) start_world = (None, dst_made)"
  by (simp add: perform_def posix_def chain_def Clean_def clean_step_def path_of_segs_def
      node_at_def implicit_dir_def start_world_def owner_env_def dst_made_def)

theorem format_sniffing_witness:
  "perform (posix owner_env) (MkdirAll ''/dst'' 493) start_world = (None, dst_made) \<and>
   detectFormat [0x1f] = Inl FileTooSmall \<and>
   detectFormat [0x1f, 0x8b, 0x08, 0x00] = Inr ''tar.gz'' \<and>
   detectFormat [0x50, 0x4b, 0x03, 0x04] = Inr ''zip'' \<and>
   detectFormat [0x00, 0x01, 0x02, 0x03] = Inl UnknownFormat \<and>
   Extract (posix owner_env) ((example_tgz [])\<lparr>raw := [0x1f, 0x8b]\<rparr>) ''/dst'' start_world =
     (Some PeekFailed, dst_made) \<and>
   Extract (posix owner_env) ((example_tgz [])\<lparr>raw := [0x00, 0x01, 0x02, 0x03]\<rparr>) ''/dst'' start_world =
     (Some UnsupportedFormat, dst_made)"
proof -
  note t = format_sniffing [OF mk_dst]
  have 1: "detectFormat [0x1f] = Inl FileTooSmall"
    using t [of "[0x1f]"] by simp
  have 2: "detectFormat [0x1f, 0x8b, 0x08, 0x00] = Inr ''tar.gz''"
    using t [of "[0x1f, 0x8b, 0x08, 0x00]"] by simp
  have 3: "detectFormat [0x50, 0x4b, 0x03, 0x04] = Inr ''zip''"
    using t [of "[0x50, 0x4b, 0x03, 0x04]"] by simp
  have 4: "detectFormat [0x00, 0x01, 0x02, 0x03] = Inl UnknownFormat"
    using t [of "[0x00, 0x01, 0x02, 0x03]"] by simp
  have 5: "Extract (posix owner_env) ((example_tgz [])\<lparr>raw := [0x1f, 0x8b]\<rparr>) ''/dst'' start_world =
     (Some PeekFailed, dst_made)"
    using t [of "[]" "(example_tgz [])\<lparr>raw := [0x1f, 0x8b]\<rparr>"] by simp
  have 6: "Extract (posix owner_env) ((example_tgz [])\<lparr>raw := [0x00, 0x01, 0x02, 0x03]\<rparr>) ''/dst'' start_world =
     (Some UnsupportedFormat, dst_made)"
    using t [of "[]" "(example_tgz [])\<lparr>raw := [0x00, 0x01, 0x02, 0x03]\<rparr>"] by simp
  from mk_dst 1 2 3 4 5 6 show ?thesis by simp
qed

subsection \<open>Paths kept\<close>








subsection \<open>Runs on the sample data\<close>

lemmas path_eval = Join_def Clean_def clean_step_def Dir_def HasPrefix_def

lemmas posix_eval = perform_def posix_def chain_def path_of_segs_def node_at_def implicit_dir_def
  parent_check_def owner_env_def os_result_def

lemmas entry_eval = extractTarEntryOptimized_def extractZipEntryOptimized_def
  extractFileOptimized_def FileMode_def Let_def



text \<open>
  C2, at the failing input: for the symbolic link \<open>link\<close> with target
  \<open>../dst-evil/secret\<close> and destination \<open>/dst\<close>, \<open>extractTarEntryOptimized\<close> goes on to
  call \<open>os.Symlink\<close>, and the link is made, although the target, read from the link's own
  directory, is \<open>/dst-evil/secret\<close>, which is not within \<open>/dst\<close>.
\<close>

theorem symlink_target_escape:
  "extractTarEntryOptimized sys (example_link ''link'' ''../dst-evil/secret'') ''/dst'' w =
     os_result (perform sys (Symlink ''../dst-evil/secret'' ''/dst/link'') w) \<and>
   Clean (Join (Dir (Join ''/dst'' ''link'')) ''../dst-evil/secret'') = ''/dst-evil/secret'' \<and>
   \<not> within_root (Clean ''/dst'') ''/dst-evil/secret''"
proof -
  have a: "extractTarEntryOptimized sys (example_link ''link'' ''../dst-evil/secret'') ''/dst'' w =
     os_result (perform sys (Symlink ''../dst-evil/secret'' ''/dst/link'') w)"
    by (simp add: extractTarEntryOptimized_def Let_def path_eval example_link_def)
  have c: "Clean (Join (Dir (Join ''/dst'' ''link'')) ''../dst-evil/secret'') = ''/dst-evil/secret''"
    by (simp add: path_eval)
  have d: "\<not> within_root (Clean ''/dst'') ''/dst-evil/secret''"
    by (simp add: within_root_def path_eval)
  from a c d show ?thesis by blast
qed

theorem symlink_target_escape_witness:
  "extractTarEntryOptimized (posix owner_env) (example_link ''link'' ''../dst-evil/secret'') ''/dst''
       dst_made =
     (None, \<lparr>fs = [''/dst'' \<mapsto> DirNode 493, ''/dst/link'' \<mapsto> LinkNode ''../dst-evil/secret''],
             calls = [MkdirAll ''/dst'' 493, Symlink ''../dst-evil/secret'' ''/dst/link'']\<rparr>)"
proof -
  have p: "os_result (perform (posix owner_env) (Symlink ''../dst-evil/secret'' ''/dst/link'') dst_made) =
     (None, \<lparr>fs = [''/dst'' \<mapsto> DirNode 493, ''/dst/link'' \<mapsto> LinkNode ''../dst-evil/secret''],
             calls = [MkdirAll ''/dst'' 493, Symlink ''../dst-evil/secret'' ''/dst/link'']\<rparr>)"
    by (simp add: posix_eval path_eval dst_made_def)
  from symlink_target_escape [of "posix owner_env" dst_made] p show ?thesis by simp
qed

lemma parse_example: "ParseRepoURL ''https://github.com/o/r'' = Inr (''o'', ''r'')"
  by (simp add: ParseRepoURL_def HasPrefix_def)

lemma entry_a:
  "extractTarEntryOptimized (posix owner_env) (example_file ''a.txt'' ''A'') ''/dst'' dst_made =
   (None, after_a)"
  by (simp add: entry_eval path_eval posix_eval example_file_def dst_made_def after_a_def)

lemma entry_b:
  "extractTarEntryOptimized (posix owner_env) (example_file ''b.txt'' ''B'') ''/dst'' after_a =
   (None, after_a_b)"
  by (simp add: entry_eval path_eval posix_eval example_file_def after_a_def after_a_b_def)

lemma loop_a_b:
  "extractTarGzStream_loop (posix owner_env)
     [Header (example_file ''a.txt'' ''A''), Header (example_file ''b.txt'' ''B'')] ''/dst'' dst_made =
   (None, after_a_b)"
  by (simp add: entry_a entry_b)

lemma extract_a_b:
  "Extract (posix owner_env) (example_tgz [example_file ''a.txt'' ''A'', example_file ''b.txt'' ''B''])
     ''/dst'' start_world = (None, after_a_b)"
  by (simp add: Extract_def mk_dst Peek_def example_tgz_def detectFormatFromBytes_def
      extractTarGzStream_def entry_a entry_b)

text \<open>
  C4, as the claim states it, fails: with a context whose cancellation is raised after
  the first of two entries, the installation still extracts the second entry and succeeds.
\<close>

theorem cancellation_ignored_counterexample:
  "installRepo (example_installer (example_tgz [example_file ''a.txt'' ''A'', example_file ''b.txt'' ''B'']))
     (CancelledAfter 1) example_config example_repo first_asset start_world = (None, after_a_b) \<and>
   fs after_a_b ''/dst/b.txt'' = Some (FileNode 420 [66])"
  by (simp add: installRepo_def example_repo_def parse_example example_installer_def first_asset_def
      example_release_def extract_a_b after_a_b_def)

text \<open>
  C4, amended: the extractor takes no cancellation signal. \<open>installRepo\<close> hands the
  caller's context to the release finder and to the downloader only, so two contexts that
  those two treat alike give the same installation, whatever is cancelled in between;
  and an archive loop starts each next entry as soon as the entries before it have
  succeeded, stopping only at the first error or at the end of the archive.
\<close>

theorem extraction_ignores_context:
  assumes "inst_finder i ctx = inst_finder i ctx'"
      and "inst_downloader i ctx = inst_downloader i ctx'"
  shows "installRepo i ctx cfg repo assetFilter w = installRepo i ctx' cfg repo assetFilter w \<and>
         extractTarGzStream_loop sys (pre @ post) dst w0 =
           (case extractTarGzStream_loop sys pre dst w0 of
              (Some e, w') \<Rightarrow> (Some e, w')
            | (None, w') \<Rightarrow> extractTarGzStream_loop sys post dst w') \<and>
         extractZipFromReader_loop sys (zpre @ zpost) dst w0 =
           (case extractZipFromReader_loop sys zpre dst w0 of
              (Some e, w') \<Rightarrow> (Some e, w')
            | (None, w') \<Rightarrow> extractZipFromReader_loop sys zpost dst w')"
proof -
  have "installRepo i ctx cfg repo assetFilter w = installRepo i ctx' cfg repo assetFilter w"
    unfolding installRepo_def assms by (rule refl)
  then show ?thesis
    using tar_loop_append [of sys pre post dst w0] zip_loop_append [of sys zpre zpost dst w0]
    by simp
qed

theorem extraction_ignores_context_witness:
  "inst_finder (example_installer (example_tgz [example_file ''a.txt'' ''A'', example_file ''b.txt'' ''B'']))
     (CancelledAfter 1) =
   inst_finder (example_installer (example_tgz [example_file ''a.txt'' ''A'', example_file ''b.txt'' ''B'']))
     NeverCancelled \<and>
   inst_downloader (example_installer (example_tgz [example_file ''a.txt'' ''A'', example_file ''b.txt'' ''B'']))
     (CancelledAfter 1) =
   inst_downloader (example_installer (example_tgz [example_file ''a.txt'' ''A'', example_file ''b.txt'' ''B'']))
     NeverCancelled \<and>
   installRepo (example_installer (example_tgz [example_file ''a.txt'' ''A'', example_file ''b.txt'' ''B'']))
     (CancelledAfter 1) example_config example_repo first_asset start_world =
   installRepo (example_installer (example_tgz [example_file ''a.txt'' ''A'', example_file ''b.txt'' ''B'']))
     NeverCancelled example_config example_repo first_asset start_world"
proof -
  let ?i = "example_installer (example_tgz [example_file ''a.txt'' ''A'', example_file ''b.txt'' ''B''])"
  have f: "inst_finder ?i (CancelledAfter 1) = inst_finder ?i NeverCancelled"
    by (simp add: example_installer_def)
  have d: "inst_downloader ?i (CancelledAfter 1) = inst_downloader ?i NeverCancelled"
    by (simp add: example_installer_def)
  from extraction_ignores_context [OF f d, of example_config example_repo first_asset start_world]
    f d
  show ?thesis by blast
qed

section \<open>Extracting twice\<close>

lemma same_kind_refl [simp]: "same_kind n n"
  by (cases n) auto

lemma same_kind_trans: "same_kind a b \<Longrightarrow> same_kind b c \<Longrightarrow> same_kind a c"
  by (cases a; cases b; cases c) auto

lemma shape_le_refl [simp]: "shape_le s s"
  by (auto simp: shape_le_def)

lemma shape_le_trans:
  assumes "shape_le a b" and "shape_le b c"
  shows "shape_le a c"
  unfolding shape_le_def
proof (intro allI impI)
  fix p n
  assume "a p = Some n"
  with assms(1) obtain n' where 1: "b p = Some n'" "same_kind n n'"
    unfolding shape_le_def by blast
  with assms(2) obtain n'' where 2: "c p = Some n''" "same_kind n' n''"
    unfolding shape_le_def by blast
  from 1 2 show "\<exists>n'. c p = Some n' \<and> same_kind n n'"
    using same_kind_trans by blast
qed

lemma shape_le_dir: "shape_le s t \<Longrightarrow> s p = Some (DirNode m) \<Longrightarrow> t p = Some (DirNode m)"
proof -
  assume a: "shape_le s t" "s p = Some (DirNode m)"
  then obtain n' where n: "t p = Some n'" "same_kind (DirNode m) n'"
    unfolding shape_le_def by blast
  then show ?thesis by (cases n') auto
qed

lemma shape_le_file:
  "shape_le s t \<Longrightarrow> s p = Some (FileNode m c) \<Longrightarrow> \<exists>c'. t p = Some (FileNode m c')"
proof -
  assume a: "shape_le s t" "s p = Some (FileNode m c)"
  then obtain n' where n: "t p = Some n'" "same_kind (FileNode m c) n'"
    unfolding shape_le_def by blast
  then show ?thesis by (cases n') auto
qed

lemma shape_le_upd_new: "s p = None \<Longrightarrow> shape_le s (s(p \<mapsto> n))"
  by (auto simp: shape_le_def)

lemma shape_le_upd_file:
  "s p = Some (FileNode m c) \<Longrightarrow> shape_le s (s(p \<mapsto> FileNode m c'))"
  by (auto simp: shape_le_def)

lemma rerun_inv_start: "rerun_inv F s F"
  by (simp add: rerun_inv_def)

lemma rerun_inv_end: "rerun_inv F F t \<Longrightarrow> t = F"
  by (auto simp: rerun_inv_def)

lemma rerun_inv_grow:
  assumes "rerun_inv F s t" and "shape_le s1 F" and "\<forall>p. s1 p = s p \<or> s p = None"
  shows "rerun_inv F s1 t"
proof -
  have "t p = s1 p \<or> t p = F p" for p
  proof (cases "t p = F p \<or> s1 p = s p")
    case True
    with assms(1) show ?thesis by (auto simp: rerun_inv_def)
  next
    case False
    with assms(3) have sp: "s p = None" and ne: "s1 p \<noteq> None" by auto
    from False assms(1) have "t p = s p" by (auto simp: rerun_inv_def)
    with sp have tn: "t p = None" by simp
    from ne obtain n where "s1 p = Some n" by auto
    with assms(2) obtain n' where "F p = Some n'" unfolding shape_le_def by blast
    with assms(1) have "t p \<noteq> None" unfolding rerun_inv_def shape_le_def by blast
    with tn show ?thesis by simp
  qed
  with assms(1) show ?thesis by (simp add: rerun_inv_def)
qed

lemma chain_ne: "chain q \<noteq> []"
proof -
  have "0 < length (splitc CHR ''/'' (Clean q))" by simp
  then show ?thesis by (simp add: chain_def Let_def Suc_le_eq)
qed

lemma mkdirAll_chain_grow:
  "mkdirAll_chain env perm ps s = (None, s1) \<Longrightarrow> s1 p = s p \<or> s p = None"
proof (induction ps arbitrary: s1)
  case Nil then show ?case by simp
next
  case (Cons x xs)
  show ?case
  proof (cases "node_at s x")
    case None
    obtain r t' where rec: "mkdirAll_chain env perm xs s = (r, t')" by fastforce
    with Cons.prems None have r: "r = None" and s1: "s1 = t'(x \<mapsto> DirNode (creat_mode env perm))"
      by (auto split: option.splits)
    from None have sx: "s x = None" by (auto simp: node_at_def split: if_splits)
    from Cons.IH [of t'] rec r have "t' p = s p \<or> s p = None" by simp
    with s1 sx show ?thesis by auto
  next
    case (Some n)
    with Cons.prems show ?thesis by (cases n) auto
  qed
qed

lemma mkdirAll_chain_shape:
  "mkdirAll_chain env perm ps s = (None, s1) \<Longrightarrow> shape_le s s1"
proof -
  assume a: "mkdirAll_chain env perm ps s = (None, s1)"
  have "s1 p = s p \<or> s p = None" for p using mkdirAll_chain_grow [OF a] .
  then show ?thesis unfolding shape_le_def by (metis option.distinct(1) same_kind_refl)
qed

lemma mkdirAll_chain_made:
  "mkdirAll_chain env perm (x # xs) s = (None, s1) \<Longrightarrow> \<exists>m. node_at s1 x = Some (DirNode m)"
proof (cases "node_at s x")
  case None
  assume a: "mkdirAll_chain env perm (x # xs) s = (None, s1)"
  with None obtain t' where "s1 = t'(x \<mapsto> DirNode (creat_mode env perm))"
    by (auto split: option.splits prod.splits)
  then show ?thesis by (simp add: node_at_def)
next
  case (Some n)
  assume a: "mkdirAll_chain env perm (x # xs) s = (None, s1)"
  with Some show ?thesis by (cases n) auto
qed

lemma mkdirAll_chain_again:
  assumes "mkdirAll_chain env perm (x # xs) s = (None, s1)" and "shape_le s1 F" and "shape_le F t"
  shows "mkdirAll_chain env perm' (x # xs) t = (None, t)"
proof -
  from mkdirAll_chain_made [OF assms(1)] obtain m where m: "node_at s1 x = Some (DirNode m)" by blast
  have "\<exists>m'. node_at t x = Some (DirNode m')"
  proof (cases "implicit_dir x")
    case True then show ?thesis by (simp add: node_at_def)
  next
    case False
    with m have "s1 x = Some (DirNode m)" by (simp add: node_at_def)
    then have "t x = Some (DirNode m)"
      using shape_le_dir [OF shape_le_trans [OF assms(2) assms(3)]] by blast
    with False show ?thesis by (simp add: node_at_def)
  qed
  then show ?thesis by auto
qed

lemma posix_shape: "posix env c s = (None, s') \<Longrightarrow> shape_le s s'"
proof (cases c)
  case (MkdirAll q perm)
  assume "posix env c s = (None, s')"
  with MkdirAll show ?thesis by (simp add: posix_def mkdirAll_chain_shape)
next
  case (OpenFile q perm)
  assume a: "posix env c s = (None, s')"
  show ?thesis
  proof (cases "node_at s (Clean q)")
    case None
    then have "s (Clean q) = None" by (auto simp: node_at_def split: if_splits)
    with a OpenFile None show ?thesis
      by (auto simp: posix_def shape_le_upd_new split: option.splits)
  next
    case (Some n)
    with a OpenFile obtain m c where n: "n = FileNode m c"
      by (cases n) (auto simp: posix_def)
    with Some have "s (Clean q) = Some (FileNode m c)" by (auto simp: node_at_def split: if_splits)
    with a OpenFile Some n show ?thesis
      by (auto simp: posix_def shape_le_upd_file split: if_splits)
  qed
next
  case (WriteFile q d)
  assume a: "posix env c s = (None, s')"
  with WriteFile obtain m c0 where n: "node_at s (Clean q) = Some (FileNode m c0)"
    by (auto simp: posix_def split: option.splits node.splits)
  then have "s (Clean q) = Some (FileNode m c0)" by (auto simp: node_at_def split: if_splits)
  with a WriteFile n show ?thesis by (auto simp: posix_def shape_le_upd_file)
next
  case (Symlink tg q)
  assume a: "posix env c s = (None, s')"
  with Symlink have n: "node_at s (Clean q) = None"
    by (auto simp: posix_def split: option.splits)
  then have "s (Clean q) = None" by (auto simp: node_at_def split: if_splits)
  with a Symlink n show ?thesis
    by (auto simp: posix_def shape_le_upd_new split: option.splits)
qed

lemma perform_shape: "perform (posix env) c w = (None, w') \<Longrightarrow> shape_le (fs w) (fs w')"
  by (auto simp: perform_def dest: posix_shape split: prod.splits)

lemma os_result_None: "os_result x = (None, w') \<Longrightarrow> x = (None, w')"
  by (cases x) (auto simp: os_result_def split: option.splits)

lemma file_steps:
  assumes "extractFileOptimized sys d re path m ws = (None, ws')"
  obtains w1 w2 where "perform sys (MkdirAll (Dir path) 493) ws = (None, w1)"
    and "perform sys (OpenFile path m) w1 = (None, w2)"
    and "perform sys (WriteFile path d) w2 = (None, ws')" and "\<not> re"
  using assms
  by (auto simp: extractFileOptimized_def split: prod.splits option.splits if_splits)

lemma file_shape:
  assumes "extractFileOptimized (posix env) d re path m ws = (None, ws')"
  shows "shape_le (fs ws) (fs ws')"
proof -
  from assms obtain w1 w2 where 1: "perform (posix env) (MkdirAll (Dir path) 493) ws = (None, w1)"
    and 2: "perform (posix env) (OpenFile path m) w1 = (None, w2)"
    and 3: "perform (posix env) (WriteFile path d) w2 = (None, ws')"
    by (rule file_steps)
  from perform_shape [OF 1] perform_shape [OF 2] perform_shape [OF 3] show ?thesis
    by (blast intro: shape_le_trans)
qed

lemma tar_entry_shape:
  assumes "extractTarEntryOptimized (posix env) h dst ws = (None, ws')"
  shows "shape_le (fs ws) (fs ws')"
  using assms
  by (auto simp: extractTarEntryOptimized_def Let_def
      dest: file_shape perform_shape os_result_None split: if_splits typeflag.splits)

lemma zip_entry_shape:
  assumes "extractZipEntryOptimized (posix env) f dst ws = (None, ws')"
  shows "shape_le (fs ws) (fs ws')"
  using assms
  by (auto simp: extractZipEntryOptimized_def Let_def
      dest: file_shape perform_shape os_result_None split: if_splits)

lemma tar_loop_shape:
  "extractTarGzStream_loop (posix env) items dst ws = (None, wF) \<Longrightarrow> shape_le (fs ws) (fs wF)"
proof (induction items arbitrary: ws)
  case Nil then show ?case by simp
next
  case (Cons a items)
  show ?case
  proof (cases a)
    case NextError
    with Cons.prems show ?thesis by simp
  next
    case (Header h)
    with Cons.prems obtain ws1 where 1: "extractTarEntryOptimized (posix env) h dst ws = (None, ws1)"
      and 2: "extractTarGzStream_loop (posix env) items dst ws1 = (None, wF)"
      by (auto split: prod.splits option.splits)
    from tar_entry_shape [OF 1] Cons.IH [OF 2] show ?thesis by (rule shape_le_trans)
  qed
qed

lemma zip_loop_shape:
  "extractZipFromReader_loop (posix env) files dst ws = (None, wF) \<Longrightarrow> shape_le (fs ws) (fs wF)"
proof (induction files arbitrary: ws)
  case Nil then show ?case by simp
next
  case (Cons f files)
  from Cons.prems obtain ws1 where 1: "extractZipEntryOptimized (posix env) f dst ws = (None, ws1)"
    and 2: "extractZipFromReader_loop (posix env) files dst ws1 = (None, wF)"
    by (auto split: prod.splits option.splits)
  from zip_entry_shape [OF 1] Cons.IH [OF 2] show ?case by (rule shape_le_trans)
qed

lemma perform_fs:
  "perform sys c w = (r, w') \<Longrightarrow> sys c (fs w) = (r, fs w')"
  by (auto simp: perform_def split: prod.splits)

lemma perform_again:
  "sys c (fs w) = (r, f') \<Longrightarrow> \<exists>w'. perform sys c w = (r, w') \<and> fs w' = f'"
  by (simp add: perform_def)

lemma mkdir_rerun:
  assumes 1: "perform (posix env) (MkdirAll q perm) ws = (None, ws1)"
      and sF: "shape_le (fs ws1) F" and inv: "rerun_inv F (fs ws) (fs wt)"
  shows "\<exists>wt1. perform (posix env) (MkdirAll q perm) wt = (None, wt1) \<and> fs wt1 = fs wt \<and>
               rerun_inv F (fs ws1) (fs wt1)"
proof -
  obtain x xs where ch: "chain q = x # xs" using chain_ne [of q] by (cases "chain q") auto
  from perform_fs [OF 1] have m: "mkdirAll_chain env perm (x # xs) (fs ws) = (None, fs ws1)"
    by (simp add: posix_def ch)
  from inv have Ft: "shape_le F (fs wt)" by (simp add: rerun_inv_def)
  from mkdirAll_chain_again [OF m sF Ft]
  have "posix env (MkdirAll q perm) (fs wt) = (None, fs wt)" by (simp add: posix_def ch)
  with perform_again [of "posix env" "MkdirAll q perm" wt None "fs wt"] obtain wt1 where
    p: "perform (posix env) (MkdirAll q perm) wt = (None, wt1)" "fs wt1 = fs wt" by blast
  have "\<forall>p. fs ws1 p = fs ws p \<or> fs ws p = None" using mkdirAll_chain_grow [OF m] by blast
  from rerun_inv_grow [OF inv sF this] p show ?thesis by auto
qed

lemma open_ok:
  assumes "posix env (OpenFile path m) s = (None, s2)"
  shows "\<exists>mm. \<not> implicit_dir (Clean path) \<and> s2 = s(Clean path \<mapsto> FileNode mm []) \<and>
              (may_write env mm \<or> mm = creat_mode env m)"
proof (cases "node_at s (Clean path)")
  case None
  then have "\<not> implicit_dir (Clean path)" by (auto simp: node_at_def split: if_splits)
  with assms None show ?thesis by (auto simp: posix_def split: option.splits)
next
  case (Some n)
  with assms obtain mm c where n: "n = FileNode mm c" by (cases n) (auto simp: posix_def)
  with Some have "\<not> implicit_dir (Clean path)" by (auto simp: node_at_def split: if_splits)
  with assms Some n show ?thesis by (auto simp: posix_def split: if_splits)
qed

lemma write_ok:
  assumes "posix env (WriteFile path d) s = (None, s3)"
  shows "\<exists>mm c. node_at s (Clean path) = Some (FileNode mm c) \<and>
                s3 = s(Clean path \<mapsto> FileNode mm (c @ d))"
  using assms by (auto simp: posix_def split: option.splits node.splits)

lemma open_again:
  "t (Clean path) = Some (FileNode mm c) \<Longrightarrow> \<not> implicit_dir (Clean path) \<Longrightarrow> may_write env mm \<Longrightarrow>
   posix env (OpenFile path m) t = (None, t(Clean path \<mapsto> FileNode mm []))"
  by (simp add: posix_def node_at_def)

lemma write_again:
  "t (Clean path) = Some (FileNode mm c) \<Longrightarrow> \<not> implicit_dir (Clean path) \<Longrightarrow>
   posix env (WriteFile path d) t = (None, t(Clean path \<mapsto> FileNode mm (c @ d)))"
  by (simp add: posix_def node_at_def)

lemma file_rerun:
  assumes run: "extractFileOptimized (posix env) d re path m ws = (None, ws')"
      and wr: "may_write env (creat_mode env m)"
      and sF: "shape_le (fs ws') F" and inv: "rerun_inv F (fs ws) (fs wt)"
  shows "\<exists>wt'. extractFileOptimized (posix env) d re path m wt = (None, wt') \<and>
               rerun_inv F (fs ws') (fs wt')"
proof -
  let ?q = "Clean path"
  from run obtain w1 w2 where 1: "perform (posix env) (MkdirAll (Dir path) 493) ws = (None, w1)"
    and 2: "perform (posix env) (OpenFile path m) w1 = (None, w2)"
    and 3: "perform (posix env) (WriteFile path d) w2 = (None, ws')" and re: "\<not> re"
    by (rule file_steps)
  from open_ok [OF perform_fs [OF 2]] obtain mm where
    ni: "\<not> implicit_dir ?q" and s2: "fs w2 = (fs w1)(?q \<mapsto> FileNode mm [])"
    and mw: "may_write env mm \<or> mm = creat_mode env m" by blast
  from mw wr have mw': "may_write env mm" by auto
  from write_ok [OF perform_fs [OF 3]] s2 ni
  have s3: "fs ws' = (fs w1)(?q \<mapsto> FileNode mm d)"
    by (auto simp: node_at_def)
  have s1F: "shape_le (fs w1) F"
    using shape_le_trans [OF shape_le_trans [OF perform_shape [OF 2] perform_shape [OF 3]] sF] .
  from mkdir_rerun [OF 1 s1F inv] obtain wt1 where
    t1: "perform (posix env) (MkdirAll (Dir path) 493) wt = (None, wt1)"
    and ft1: "fs wt1 = fs wt" and inv1: "rerun_inv F (fs w1) (fs wt1)" by blast
  from s3 have "fs ws' ?q = Some (FileNode mm d)" by simp
  from shape_le_file [OF sF this] obtain cF where Fq: "F ?q = Some (FileNode mm cF)" by blast
  from inv1 have Ft: "shape_le F (fs wt1)" by (simp add: rerun_inv_def)
  from shape_le_file [OF Ft Fq] obtain ct where tq: "fs wt1 ?q = Some (FileNode mm ct)" by blast
  have "posix env (OpenFile path m) (fs wt1) = (None, (fs wt1)(?q \<mapsto> FileNode mm []))"
    using open_again [of "fs wt1" path mm ct env m] tq ni mw' by simp
  with perform_again [of "posix env" "OpenFile path m" wt1 None "(fs wt1)(?q \<mapsto> FileNode mm [])"]
  obtain wt2 where
    t2: "perform (posix env) (OpenFile path m) wt1 = (None, wt2)"
    and ft2: "fs wt2 = (fs wt1)(?q \<mapsto> FileNode mm [])" by blast
  have tq2: "fs wt2 ?q = Some (FileNode mm [])" using ft2 by simp
  have "posix env (WriteFile path d) (fs wt2) = (None, (fs wt2)(?q \<mapsto> FileNode mm ([] @ d)))"
    using write_again [of "fs wt2" path mm "[]" env d] tq2 ni by simp
  with perform_again [of "posix env" "WriteFile path d" wt2 None
      "(fs wt2)(?q \<mapsto> FileNode mm ([] @ d))"]
  obtain wt3 where
    t3: "perform (posix env) (WriteFile path d) wt2 = (None, wt3)"
    and ft3: "fs wt3 = (fs wt2)(?q \<mapsto> FileNode mm ([] @ d))" by blast
  have ft3': "fs wt3 = (fs wt1)(?q \<mapsto> FileNode mm d)" using ft3 ft2 by simp
  have res: "extractFileOptimized (posix env) d re path m wt = (None, wt3)"
    using t1 t2 t3 re by (simp add: extractFileOptimized_def)
  have shp: "shape_le F (fs wt3)"
    unfolding shape_le_def
  proof (intro allI impI)
    fix p n assume a: "F p = Some n"
    show "\<exists>n'. fs wt3 p = Some n' \<and> same_kind n n'"
    proof (cases "p = ?q")
      case True
      with a Fq ft3' show ?thesis by auto
    next
      case False
      with a Ft ft3' show ?thesis unfolding shape_le_def by auto
    qed
  qed
  have agree: "fs wt3 p = fs ws' p \<or> fs wt3 p = F p" for p
  proof (cases "p = ?q")
    case True
    with s3 ft3' show ?thesis by simp
  next
    case False
    with s3 ft3' inv1 show ?thesis by (auto simp: rerun_inv_def)
  qed
  from res shp agree show ?thesis unfolding rerun_inv_def by blast
qed

lemma tar_entry_unfold:
  assumes "\<not> (hdr_Name h = ''./'' \<or> hdr_Name h = ''.'')"
      and "extractTarEntryOptimized sys h dst w0 = (None, w0')"
  shows "extractTarEntryOptimized sys h dst w =
     (case hdr_Typeflag h of
        TypeDir \<Rightarrow> os_result (perform sys (MkdirAll (Join dst (hdr_Name h)) (FileMode (hdr_Mode h))) w)
      | TypeReg \<Rightarrow>
          extractFileOptimized sys (tar_data h) (tar_read_error h) (Join dst (hdr_Name h))
            (FileMode (hdr_Mode h)) w
      | TypeSymlink \<Rightarrow>
          (if \<not> HasPrefix (Join dst (hdr_Linkname h)) dst
             then (Some (InvalidSymlinkTarget (hdr_Linkname h)), w)
           else os_result (perform sys (Symlink (hdr_Linkname h) (Join dst (hdr_Name h))) w))
      | TypeOther \<Rightarrow> (None, w))"
proof -
  define rej where "rej = (\<not> HasPrefix (Clean (Join dst (hdr_Name h))) (Clean dst) \<or>
     (Clean (Join dst (hdr_Name h)) \<noteq> Clean dst \<and>
      \<not> HasPrefix (Clean (Join dst (hdr_Name h))) (Clean dst @ ''/'')))"
  have u: "extractTarEntryOptimized sys h dst v =
     (if rej then (Some (InvalidFilePath (hdr_Name h)), v)
      else (case hdr_Typeflag h of
        TypeDir \<Rightarrow> os_result (perform sys (MkdirAll (Join dst (hdr_Name h)) (FileMode (hdr_Mode h))) v)
      | TypeReg \<Rightarrow>
          extractFileOptimized sys (tar_data h) (tar_read_error h) (Join dst (hdr_Name h))
            (FileMode (hdr_Mode h)) v
      | TypeSymlink \<Rightarrow>
          (if \<not> HasPrefix (Join dst (hdr_Linkname h)) dst
             then (Some (InvalidSymlinkTarget (hdr_Linkname h)), v)
           else os_result (perform sys (Symlink (hdr_Linkname h) (Join dst (hdr_Name h))) v))
      | TypeOther \<Rightarrow> (None, v)))" for v
    using assms(1) unfolding extractTarEntryOptimized_def Let_def rej_def by simp
  from assms(2) u [of w0] have "\<not> rej" by (cases rej) simp_all
  with u [of w] show ?thesis by simp
qed

lemma tar_entry_rerun:
  assumes run: "extractTarEntryOptimized (posix env) h dst ws = (None, ws')"
      and ok: "tar_rerunnable env [Header h]"
      and sF: "shape_le (fs ws') F" and inv: "rerun_inv F (fs ws) (fs wt)"
  shows "\<exists>wt'. extractTarEntryOptimized (posix env) h dst wt = (None, wt') \<and>
               rerun_inv F (fs ws') (fs wt')"
proof (cases "hdr_Name h = ''./'' \<or> hdr_Name h = ''.''")
  case True
  with run inv show ?thesis by (auto simp: extractTarEntryOptimized_def Let_def)
next
  case False
  let ?path = "Join dst (hdr_Name h)"
  note u = tar_entry_unfold [OF False run]
  show ?thesis
  proof (cases "hdr_Typeflag h")
    case TypeReg
    with run u [of ws] have r: "extractFileOptimized (posix env) (tar_data h) (tar_read_error h)
        ?path (FileMode (hdr_Mode h)) ws = (None, ws')"
      by simp
    from ok TypeReg have wr: "may_write env (creat_mode env (FileMode (hdr_Mode h)))"
      by (simp add: tar_rerunnable_def)
    from file_rerun [OF r wr sF inv] u [of wt] TypeReg show ?thesis
      by simp
  next
    case TypeDir
    with run u [of ws]
    have "os_result (perform (posix env) (MkdirAll ?path (FileMode (hdr_Mode h))) ws) = (None, ws')"
      by simp
    then have r: "perform (posix env) (MkdirAll ?path (FileMode (hdr_Mode h))) ws = (None, ws')"
      by (rule os_result_None)
    from mkdir_rerun [OF r sF inv] obtain wt1 where
      "perform (posix env) (MkdirAll ?path (FileMode (hdr_Mode h))) wt = (None, wt1)"
      "rerun_inv F (fs ws') (fs wt1)" by blast
    with u [of wt] TypeDir show ?thesis
      by (simp add: os_result_def)
  next
    case TypeSymlink
    with ok show ?thesis by (simp add: tar_rerunnable_def)
  next
    case TypeOther
    with run u [of ws] u [of wt] inv show ?thesis by simp
  qed
qed

lemma zip_entry_unfold:
  assumes "\<not> (zip_Name f = ''./'' \<or> zip_Name f = ''.'')"
      and "extractZipEntryOptimized sys f dst w0 = (None, w0')"
  shows "extractZipEntryOptimized sys f dst w =
     (if zip_IsDir f then os_result (perform sys (MkdirAll (Join dst (zip_Name f)) (zip_Mode f)) w)
      else if zip_open_error f then (Some OpenZipEntryFailed, w)
      else extractFileOptimized sys (zip_data f) (zip_read_error f) (Join dst (zip_Name f))
             (zip_Mode f) w)"
proof -
  define rej where "rej = (\<not> HasPrefix (Clean (Join dst (zip_Name f))) (Clean dst) \<or>
     (Clean (Join dst (zip_Name f)) \<noteq> Clean dst \<and>
      \<not> HasPrefix (Clean (Join dst (zip_Name f))) (Clean dst @ ''/'')))"
  have u: "extractZipEntryOptimized sys f dst v =
     (if rej then (Some (InvalidFilePath (zip_Name f)), v)
      else if zip_IsDir f then os_result (perform sys (MkdirAll (Join dst (zip_Name f)) (zip_Mode f)) v)
      else if zip_open_error f then (Some OpenZipEntryFailed, v)
      else extractFileOptimized sys (zip_data f) (zip_read_error f) (Join dst (zip_Name f))
             (zip_Mode f) v)" for v
    using assms(1) unfolding extractZipEntryOptimized_def Let_def rej_def by simp
  from assms(2) u [of w0] have "\<not> rej" by (cases rej) simp_all
  with u [of w] show ?thesis by simp
qed

lemma zip_entry_rerun:
  assumes run: "extractZipEntryOptimized (posix env) f dst ws = (None, ws')"
      and ok: "zip_rerunnable env [f]"
      and sF: "shape_le (fs ws') F" and inv: "rerun_inv F (fs ws) (fs wt)"
  shows "\<exists>wt'. extractZipEntryOptimized (posix env) f dst wt = (None, wt') \<and>
               rerun_inv F (fs ws') (fs wt')"
proof (cases "zip_Name f = ''./'' \<or> zip_Name f = ''.''")
  case True
  with run inv show ?thesis by (auto simp: extractZipEntryOptimized_def Let_def)
next
  case False
  let ?path = "Join dst (zip_Name f)"
  note u = zip_entry_unfold [OF False run]
  show ?thesis
  proof (cases "zip_IsDir f")
    case True
    with run u [of ws]
    have "os_result (perform (posix env) (MkdirAll ?path (zip_Mode f)) ws) = (None, ws')"
      by simp
    then have r: "perform (posix env) (MkdirAll ?path (zip_Mode f)) ws = (None, ws')"
      by (rule os_result_None)
    from mkdir_rerun [OF r sF inv] obtain wt1 where
      "perform (posix env) (MkdirAll ?path (zip_Mode f)) wt = (None, wt1)"
      "rerun_inv F (fs ws') (fs wt1)" by blast
    with u [of wt] True show ?thesis
      by (simp add: os_result_def)
  next
    case nd: False
    with run u [of ws] have oe: "\<not> zip_open_error f"
      by (cases "zip_open_error f") simp_all
    with run u [of ws] nd have r: "extractFileOptimized (posix env) (zip_data f) (zip_read_error f)
        ?path (zip_Mode f) ws = (None, ws')"
      by simp
    from ok nd have wr: "may_write env (creat_mode env (zip_Mode f))"
      by (simp add: zip_rerunnable_def)
    from file_rerun [OF r wr sF inv] u [of wt] nd oe show ?thesis
      by simp
  qed
qed

lemma tar_loop_rerun:
  assumes "extractTarGzStream_loop (posix env) items dst ws = (None, wF)"
      and "tar_rerunnable env items"
      and "rerun_inv (fs wF) (fs ws) (fs wt)"
  shows "\<exists>wt'. extractTarGzStream_loop (posix env) items dst wt = (None, wt') \<and> fs wt' = fs wF"
  using assms
proof (induction items arbitrary: ws wt)
  case Nil
  then show ?case by (auto dest: rerun_inv_end)
next
  case (Cons a items)
  show ?case
  proof (cases a)
    case NextError
    with Cons.prems show ?thesis by simp
  next
    case (Header h)
    with Cons.prems(1) obtain ws1 where
      1: "extractTarEntryOptimized (posix env) h dst ws = (None, ws1)"
      and 2: "extractTarGzStream_loop (posix env) items dst ws1 = (None, wF)"
      by (auto split: prod.splits option.splits)
    from Cons.prems(2) Header have ok1: "tar_rerunnable env [Header h]"
      and ok2: "tar_rerunnable env items" by (simp_all add: tar_rerunnable_def)
    from tar_entry_rerun [OF 1 ok1 tar_loop_shape [OF 2] Cons.prems(3)] obtain wt1 where
      t1: "extractTarEntryOptimized (posix env) h dst wt = (None, wt1)"
      and i1: "rerun_inv (fs wF) (fs ws1) (fs wt1)" by blast
    from Cons.IH [OF 2 ok2 i1] t1 Header show ?thesis by simp
  qed
qed

lemma zip_loop_rerun:
  assumes "extractZipFromReader_loop (posix env) files dst ws = (None, wF)"
      and "zip_rerunnable env files"
      and "rerun_inv (fs wF) (fs ws) (fs wt)"
  shows "\<exists>wt'. extractZipFromReader_loop (posix env) files dst wt = (None, wt') \<and> fs wt' = fs wF"
  using assms
proof (induction files arbitrary: ws wt)
  case Nil
  then show ?case by (auto dest: rerun_inv_end)
next
  case (Cons f files)
  from Cons.prems(1) obtain ws1 where
    1: "extractZipEntryOptimized (posix env) f dst ws = (None, ws1)"
    and 2: "extractZipFromReader_loop (posix env) files dst ws1 = (None, wF)"
    by (auto split: prod.splits option.splits)
  from Cons.prems(2) have ok1: "zip_rerunnable env [f]"
    and ok2: "zip_rerunnable env files" by (simp_all add: zip_rerunnable_def)
  from zip_entry_rerun [OF 1 ok1 zip_loop_shape [OF 2] Cons.prems(3)] obtain wt1 where
    t1: "extractZipEntryOptimized (posix env) f dst wt = (None, wt1)"
    and i1: "rerun_inv (fs wF) (fs ws1) (fs wt1)" by blast
  from Cons.IH [OF 2 ok2 i1] t1 show ?case by simp
qed

text \<open>
  C6, amended: when an extraction has succeeded, extracting the same archive again into
  the same destination succeeds too and leaves the tree exactly as the first run left
  it, provided the archive has no symbolic-link entry and the regular files it creates
  are writable to the extracting user; regular files are truncated and rewritten,
  directories are found and reused. This holds from any starting tree, an empty
  destination among them.
\<close>

theorem rerun_same_tree:
  assumes first: "Extract (posix env) a dst w = (None, w1)"
      and ok: "archive_rerunnable env a"
  shows "\<exists>w2. Extract (posix env) a dst w1 = (None, w2) \<and> fs w2 = fs w1"
proof -
  from first obtain w0 where mk: "perform (posix env) (MkdirAll dst 493) w = (None, w0)"
    by (auto simp: Extract_def split: prod.splits option.splits)
  from first mk have pk: "Peek 4 (raw a) = Inr (take 4 (raw a))"
    by (auto simp: Extract_def Peek_def split: if_splits)
  define format where "format = detectFormatFromBytes (take 4 (raw a))"
  have ex: "Extract (posix env) a dst v =
      (case perform (posix env) (MkdirAll dst 493) v of
         (Some e, v1) \<Rightarrow> (Some (CreateDestFailed dst e), v1)
       | (None, v1) \<Rightarrow>
           if format = ''tar.gz'' \<or> format = ''tgz'' then extractTarGzStream (posix env) a dst v1
           else if format = ''zip'' then extractZipFromReader (posix env) a dst v1
           else (Some UnsupportedFormat, v1))" for v
    by (simp add: Extract_def pk format_def Let_def split: prod.splits option.splits)
  consider (tar) "format = ''tar.gz'' \<or> format = ''tgz''" | (zip) "format = ''zip''"
    | (other) "\<not> (format = ''tar.gz'' \<or> format = ''tgz'')" "format \<noteq> ''zip''"
    by blast
  then show ?thesis
  proof cases
    case tar
    with first mk ex [of w] have "extractTarGzStream (posix env) a dst w0 = (None, w1)" by simp
    then have gz: "gzip_ok a" and
      loop: "extractTarGzStream_loop (posix env) (tar_items a) dst w0 = (None, w1)"
      by (auto simp: extractTarGzStream_def split: if_splits)
    from mkdir_rerun [OF mk tar_loop_shape [OF loop] rerun_inv_start] obtain wt1 where
      m2: "perform (posix env) (MkdirAll dst 493) w1 = (None, wt1)"
      and i: "rerun_inv (fs w1) (fs w0) (fs wt1)" by blast
    from ok have "tar_rerunnable env (tar_items a)" by (simp add: archive_rerunnable_def)
    from tar_loop_rerun [OF loop this i] obtain w2 where
      "extractTarGzStream_loop (posix env) (tar_items a) dst wt1 = (None, w2)" "fs w2 = fs w1"
      by blast
    with ex [of w1] m2 tar gz show ?thesis by (simp add: extractTarGzStream_def)
  next
    case zip
    then have nt: "\<not> (format = ''tar.gz'' \<or> format = ''tgz'')" by simp
    with zip first mk ex [of w] have "extractZipFromReader (posix env) a dst w0 = (None, w1)"
      by simp
    then obtain files where ra: "read_all_ok a" and zf: "zip_files a = Some files" and
      loop: "extractZipFromReader_loop (posix env) files dst w0 = (None, w1)"
      by (auto simp: extractZipFromReader_def split: if_splits option.splits)
    from mkdir_rerun [OF mk zip_loop_shape [OF loop] rerun_inv_start] obtain wt1 where
      m2: "perform (posix env) (MkdirAll dst 493) w1 = (None, wt1)"
      and i: "rerun_inv (fs w1) (fs w0) (fs wt1)" by blast
    from ok zf have "zip_rerunnable env files" by (simp add: archive_rerunnable_def)
    from zip_loop_rerun [OF loop this i] obtain w2 where
      "extractZipFromReader_loop (posix env) files dst wt1 = (None, w2)" "fs w2 = fs w1"
      by blast
    with ex [of w1] m2 zip nt ra zf show ?thesis by (simp add: extractZipFromReader_def)
  next
    case other
    with first mk ex [of w] show ?thesis by simp
  qed
qed

lemma entry_link:
  "extractTarEntryOptimized (posix owner_env) (example_link ''link'' ''a.txt'') ''/dst'' after_a =
   (None, after_link)"
  by (simp add: entry_eval path_eval posix_eval example_link_def after_a_def after_link_def)

lemma mk_dst_again:
  "perform (posix owner_env) (MkdirAll ''/dst'' 493) after_link =
   (None, after_link\<lparr>calls := calls after_link @ [MkdirAll ''/dst'' 493]\<rparr>)"
  by (simp add: posix_eval path_eval after_link_def)

lemma entry_a_again:
  "extractTarEntryOptimized (posix owner_env) (example_file ''a.txt'' ''A'') ''/dst''
     (after_link\<lparr>calls := calls after_link @ [MkdirAll ''/dst'' 493]\<rparr>) =
   (None, after_link\<lparr>calls := calls after_link @ [MkdirAll ''/dst'' 493, MkdirAll ''/dst'' 493,
       OpenFile ''/dst/a.txt'' 420, WriteFile ''/dst/a.txt'' [65]]\<rparr>)"
  by (simp add: entry_eval path_eval posix_eval example_file_def after_link_def fun_upd_twist)

lemma entry_link_again:
  "extractTarEntryOptimized (posix owner_env) (example_link ''link'' ''a.txt'') ''/dst''
     (after_link\<lparr>calls := calls after_link @ [MkdirAll ''/dst'' 493, MkdirAll ''/dst'' 493,
       OpenFile ''/dst/a.txt'' 420, WriteFile ''/dst/a.txt'' [65]]\<rparr>) =
   (Some (OsError EEXIST), after_link_again)"
  by (simp add: entry_eval path_eval posix_eval example_link_def after_link_def after_link_again_def)

lemma entry_r:
  "extractTarEntryOptimized (posix owner_env) (example_readonly ''r.txt'' ''R'') ''/dst'' dst_made =
   (None, after_r)"
  by (simp add: entry_eval path_eval posix_eval example_readonly_def example_file_def
      dst_made_def after_r_def)

lemma mk_dst_r:
  "perform (posix owner_env) (MkdirAll ''/dst'' 493) after_r =
   (None, after_r\<lparr>calls := calls after_r @ [MkdirAll ''/dst'' 493]\<rparr>)"
  by (simp add: posix_eval path_eval after_r_def)

lemma entry_r_again:
  "extractTarEntryOptimized (posix owner_env) (example_readonly ''r.txt'' ''R'') ''/dst''
     (after_r\<lparr>calls := calls after_r @ [MkdirAll ''/dst'' 493]\<rparr>) =
   (Some (CreateFileFailed ''/dst/r.txt'' EACCES), after_r_again)"
  by (simp add: entry_eval path_eval posix_eval example_readonly_def example_file_def
      after_r_def after_r_again_def)

lemma extract_r:
  "Extract (posix owner_env) (example_tgz [example_readonly ''r.txt'' ''R'']) ''/dst'' start_world =
     (None, after_r) \<and>
   Extract (posix owner_env) (example_tgz [example_readonly ''r.txt'' ''R'']) ''/dst'' after_r =
     (Some (TarEntryFailed ''r.txt'' (CreateFileFailed ''/dst/r.txt'' EACCES)), after_r_again)"
proof -
  have n: "hdr_Name (example_readonly ''r.txt'' ''R'') = ''r.txt''"
    by (simp add: example_readonly_def example_file_def)
  have 1: "Extract (posix owner_env) (example_tgz [example_readonly ''r.txt'' ''R'']) ''/dst''
      start_world = (None, after_r)"
    by (simp add: Extract_def mk_dst Peek_def example_tgz_def detectFormatFromBytes_def
        extractTarGzStream_def entry_r)
  have 2: "Extract (posix owner_env) (example_tgz [example_readonly ''r.txt'' ''R'']) ''/dst'' after_r =
     (Some (TarEntryFailed ''r.txt'' (CreateFileFailed ''/dst/r.txt'' EACCES)), after_r_again)"
    by (simp add: Extract_def mk_dst_r Peek_def example_tgz_def detectFormatFromBytes_def
        extractTarGzStream_def entry_r_again n)
  from 1 2 show ?thesis by simp
qed

text \<open>
  C6, as the claim states it, fails: the archive with the file \<open>a.txt\<close> and the symbolic
  link \<open>link\<close> to it extracts into the empty \<open>/dst\<close>, and extracting it again fails at the
  link, which \<open>os.Symlink\<close> refuses to make over the existing one. So does, for a user who
  is not the superuser, the archive with one read-only file: the second run cannot open
  it for writing.
\<close>

theorem rerun_with_symlink_counterexample:
  "Extract (posix owner_env)
     (example_tgz [example_file ''a.txt'' ''A'', example_link ''link'' ''a.txt'']) ''/dst'' start_world =
     (None, after_link) \<and>
   Extract (posix owner_env)
     (example_tgz [example_file ''a.txt'' ''A'', example_link ''link'' ''a.txt'']) ''/dst'' after_link =
     (Some (TarEntryFailed ''link'' (OsError EEXIST)), after_link_again) \<and>
   Extract (posix owner_env) (example_tgz [example_readonly ''r.txt'' ''R'']) ''/dst'' start_world =
     (None, after_r) \<and>
   Extract (posix owner_env) (example_tgz [example_readonly ''r.txt'' ''R'']) ''/dst'' after_r =
     (Some (TarEntryFailed ''r.txt'' (CreateFileFailed ''/dst/r.txt'' EACCES)), after_r_again)"
proof -
  have n: "hdr_Name (example_link ''link'' ''a.txt'') = ''link''" by (simp add: example_link_def)
  have 1: "Extract (posix owner_env)
     (example_tgz [example_file ''a.txt'' ''A'', example_link ''link'' ''a.txt'']) ''/dst'' start_world =
     (None, after_link)"
    by (simp add: Extract_def mk_dst Peek_def example_tgz_def detectFormatFromBytes_def
        extractTarGzStream_def entry_a entry_link)
  have 2: "Extract (posix owner_env)
     (example_tgz [example_file ''a.txt'' ''A'', example_link ''link'' ''a.txt'']) ''/dst'' after_link =
     (Some (TarEntryFailed ''link'' (OsError EEXIST)), after_link_again)"
    by (simp add: Extract_def mk_dst_again Peek_def example_tgz_def detectFormatFromBytes_def
        extractTarGzStream_def entry_a_again entry_link_again n)
  from 1 2 extract_r show ?thesis by simp
qed

lemma entry_dot: "extractTarEntryOptimized sys (example_dir ''./'') dst w = (None, w)"
  by (simp add: extractTarEntryOptimized_def Let_def example_dir_def)

lemma entry_sub:
  "extractTarEntryOptimized (posix owner_env) (example_dir ''sub/'') ''/dst'' after_a =
   (None, after_a_sub)"
  by (simp add: entry_eval path_eval posix_eval example_dir_def after_a_def after_a_sub_def)

theorem rerun_same_tree_witness:
  "Extract (posix owner_env)
     (example_tgz [example_dir ''./'', example_file ''a.txt'' ''A'', example_dir ''sub/''])
     ''/dst'' start_world = (None, after_a_sub) \<and>
   archive_rerunnable owner_env
     (example_tgz [example_dir ''./'', example_file ''a.txt'' ''A'', example_dir ''sub/'']) \<and>
   (\<exists>w2. Extract (posix owner_env)
     (example_tgz [example_dir ''./'', example_file ''a.txt'' ''A'', example_dir ''sub/''])
     ''/dst'' after_a_sub = (None, w2) \<and> fs w2 = fs after_a_sub)"
proof -
  let ?a = "example_tgz [example_dir ''./'', example_file ''a.txt'' ''A'', example_dir ''sub/'']"
  have 1: "Extract (posix owner_env) ?a ''/dst'' start_world = (None, after_a_sub)"
    by (simp add: Extract_def mk_dst Peek_def example_tgz_def detectFormatFromBytes_def
        extractTarGzStream_def entry_dot entry_a entry_sub)
  have 2: "archive_rerunnable owner_env ?a"
    by (simp add: archive_rerunnable_def tar_rerunnable_def example_tgz_def example_dir_def
        example_file_def owner_env_def FileMode_def)
  from rerun_same_tree [OF 1 2] 1 2 show ?thesis by blast
qed

section \<open>The path guard\<close>

lemma guard_iff:
  "(\<not> HasPrefix cp cd \<or> (cp \<noteq> cd \<and> \<not> HasPrefix cp (cd @ ''/''))) =
   (\<not> (cp = cd \<or> prefix (cd @ ''/'') cp))"
  by (auto simp: HasPrefix_def prefix_def)

lemma tar_entry_rejected:
  assumes "\<not> path_admitted dst (hdr_Name h)"
  shows "extractTarEntryOptimized sys h dst w = (Some (InvalidFilePath (hdr_Name h)), w)"
proof -
  have nd: "hdr_Name h \<noteq> ''./'' \<and> hdr_Name h \<noteq> ''.''"
    using assms Clean_Join_dot [of "hdr_Name h" dst] by (auto simp: path_admitted_def)
  have g: "\<not> HasPrefix (Clean (Join dst (hdr_Name h))) (Clean dst) \<or>
           (Clean (Join dst (hdr_Name h)) \<noteq> Clean dst \<and>
            \<not> HasPrefix (Clean (Join dst (hdr_Name h))) (Clean dst @ ''/''))"
    using assms unfolding guard_iff path_admitted_def .
  show ?thesis using nd g by (auto simp: extractTarEntryOptimized_def Let_def)
qed

lemma zip_entry_rejected:
  assumes "\<not> path_admitted dst (zip_Name f)"
  shows "extractZipEntryOptimized sys f dst w = (Some (InvalidFilePath (zip_Name f)), w)"
proof -
  have nd: "zip_Name f \<noteq> ''./'' \<and> zip_Name f \<noteq> ''.''"
    using assms Clean_Join_dot [of "zip_Name f" dst] by (auto simp: path_admitted_def)
  have g: "\<not> HasPrefix (Clean (Join dst (zip_Name f))) (Clean dst) \<or>
           (Clean (Join dst (zip_Name f)) \<noteq> Clean dst \<and>
            \<not> HasPrefix (Clean (Join dst (zip_Name f))) (Clean dst @ ''/''))"
    using assms unfolding guard_iff path_admitted_def .
  show ?thesis using nd g by (auto simp: extractZipEntryOptimized_def Let_def)
qed



lemma Clean_ne [simp]: "Clean p \<noteq> []"
  by (simp add: Clean_def Let_def)

lemma at_or_below_refl: "at_or_below r r"
  by (simp add: at_or_below_def)

lemma admitted_at_or_below:
  assumes named: "path_names (Clean dst) \<noteq> []" and adm: "path_admitted dst name"
  shows "at_or_below (Clean dst) (Clean (Join dst name))"
proof (cases "Clean (Join dst name) = Clean dst")
  case True then show ?thesis by (simp add: at_or_below_refl)
next
  case False
  let ?cd = "Clean dst" and ?cp = "Clean (Join dst name)"
  let ?dd = "\<lambda>s. s = ''..''"
  from False adm obtain r where cp: "?cp = ?cd @ CHR ''/'' # r"
    by (auto simp: path_admitted_def prefix_def)
  have sp: "splitc CHR ''/'' ?cp = splitc CHR ''/'' ?cd @ splitc CHR ''/'' r"
    unfolding cp by (rule splitc_append)
  have el: "path_elements ?cp = path_elements ?cd @ path_elements r"
    by (simp add: path_elements_def sp)
  from named have "\<exists>x\<in>set (path_elements ?cd). \<not> ?dd x"
    unfolding path_names_def by (simp add: dropWhile_eq_Nil_conv)
  then obtain x where x: "x \<in> set (path_elements ?cd)" "\<not> ?dd x" by blast
  have tw: "takeWhile ?dd (path_elements ?cd @ path_elements r) = takeWhile ?dd (path_elements ?cd)"
    using x by (intro takeWhile_append1) auto
  have dw: "dropWhile ?dd (path_elements ?cd @ path_elements r) =
            dropWhile ?dd (path_elements ?cd) @ path_elements r"
    using x by (intro dropWhile_append1) auto
  have hd: "is_rooted ?cp = is_rooted ?cd"
    using cp Clean_ne [of dst] by (cases ?cd) (auto simp: is_rooted_def)
  show ?thesis
    unfolding at_or_below_def steps_up_def path_names_def el tw dw using hd by simp
qed

text \<open>
  For a destination whose cleaned path has a name in it (\<open>/dst\<close>, \<open>out\<close>, \<open>../out\<close>), what
  the guard admits is at or below the destination; so an entry whose joined and cleaned
  path is not at or below it is refused with the invalid-path error, which the archive
  loop returns wrapped in the entry's name, and no call is made for it.
\<close>

lemma traversal_rejected_named:
  assumes named: "path_names (Clean dst) \<noteq> []"
      and out: "\<not> at_or_below (Clean dst) (Clean (Join dst (hdr_Name h)))"
      and same: "zip_Name f = hdr_Name h"
  shows "extractTarEntryOptimized sys h dst w = (Some (InvalidFilePath (hdr_Name h)), w) \<and>
         extractTarGzStream_loop sys (Header h # rest) dst w =
           (Some (TarEntryFailed (hdr_Name h) (InvalidFilePath (hdr_Name h))), w) \<and>
         extractZipEntryOptimized sys f dst w = (Some (InvalidFilePath (zip_Name f)), w) \<and>
         extractZipFromReader_loop sys (f # files) dst w =
           (Some (ZipEntryFailed (zip_Name f) (InvalidFilePath (zip_Name f))), w)"
proof -
  have na: "\<not> path_admitted dst (hdr_Name h)"
    using admitted_at_or_below [OF named] out by blast
  then have nz: "\<not> path_admitted dst (zip_Name f)" using same by simp
  show ?thesis by (simp add: tar_entry_rejected [OF na] zip_entry_rejected [OF nz])
qed

text \<open>
  C1, at the failing input: with the destination \<open>..\<close> (the directory above the working
  directory), the entry \<open>../x\<close> is joined and cleaned to \<open>../../x\<close>. That string begins
  with the cleaned destination and a separator, so the guard lets it pass, and the entry
  goes on to \<open>extractFileOptimized\<close> with the path \<open>../../x\<close>. So does the entry
  \<open>../../../etc/passwd\<close> of the package's own traversal test, with the path
  \<open>../../../../etc/passwd\<close>, and so does the zip entry \<open>../x\<close>. Both paths go up two
  steps and more where the destination goes up one: they are not at or below it.
\<close>

theorem traversal_above_destination:
  "extractTarEntryOptimized sys (example_file ''../x'' ''X'') ''..'' w =
     extractFileOptimized sys [88] False ''../../x'' 420 w \<and>
   extractZipEntryOptimized sys (example_zip_file ''../x'' ''X'') ''..'' w =
     extractFileOptimized sys [88] False ''../../x'' 420 w \<and>
   extractTarEntryOptimized sys (example_file ''../../../etc/passwd'' ''X'') ''..'' w =
     extractFileOptimized sys [88] False ''../../../../etc/passwd'' 420 w \<and>
   Clean ''..'' = ''..'' \<and>
   Clean (Join ''..'' ''../x'') = ''../../x'' \<and>
   \<not> at_or_below (Clean ''..'') (Clean (Join ''..'' ''../x'')) \<and>
   Clean (Join ''..'' ''../../../etc/passwd'') = ''../../../../etc/passwd'' \<and>
   \<not> at_or_below (Clean ''..'') (Clean (Join ''..'' ''../../../etc/passwd''))"
proof -
  have a: "extractTarEntryOptimized sys (example_file ''../x'' ''X'') ''..'' w =
     extractFileOptimized sys [88] False ''../../x'' 420 w"
    by (simp add: extractTarEntryOptimized_def Let_def path_eval example_file_def FileMode_def)
  have b: "extractZipEntryOptimized sys (example_zip_file ''../x'' ''X'') ''..'' w =
     extractFileOptimized sys [88] False ''../../x'' 420 w"
    by (simp add: extractZipEntryOptimized_def Let_def path_eval example_zip_file_def)
  have c: "extractTarEntryOptimized sys (example_file ''../../../etc/passwd'' ''X'') ''..'' w =
     extractFileOptimized sys [88] False ''../../../../etc/passwd'' 420 w"
    by (simp add: extractTarEntryOptimized_def Let_def path_eval example_file_def FileMode_def)
  have d: "Clean ''..'' = ''..''" by (simp add: path_eval)
  have e: "Clean (Join ''..'' ''../x'') = ''../../x''" by (simp add: path_eval)
  have f: "Clean (Join ''..'' ''../../../etc/passwd'') = ''../../../../etc/passwd''"
    by (simp add: path_eval)
  have g: "\<not> at_or_below ''..'' ''../../x''"
    by (simp add: at_or_below_def is_rooted_def steps_up_def path_names_def path_elements_def)
  have h: "\<not> at_or_below ''..'' ''../../../../etc/passwd''"
    by (simp add: at_or_below_def is_rooted_def steps_up_def path_names_def path_elements_def)
  from a b c d e f g h show ?thesis by simp
qed

theorem traversal_above_destination_witness:
  "Extract (posix owner_env) (example_tgz [example_file ''../x'' ''X'']) ''..'' start_world =
     (None, \<lparr>fs = [''../../x'' \<mapsto> FileNode 420 [88]],
             calls = [MkdirAll ''..'' 493, MkdirAll ''../..'' 493, OpenFile ''../../x'' 420,
                      WriteFile ''../../x'' [88]]\<rparr>)"
proof -
  have m: "perform (posix owner_env) (MkdirAll ''..'' 493) start_world =
     (None, \<lparr>fs = Map.empty, calls = [MkdirAll ''..'' 493]\<rparr>)"
    by (simp add: posix_eval path_eval start_world_def)
  have p: "extractFileOptimized (posix owner_env) [88] False ''../../x'' 420
       \<lparr>fs = Map.empty, calls = [MkdirAll ''..'' 493]\<rparr> =
     (None, \<lparr>fs = [''../../x'' \<mapsto> FileNode 420 [88]],
             calls = [MkdirAll ''..'' 493, MkdirAll ''../..'' 493, OpenFile ''../../x'' 420,
                      WriteFile ''../../x'' [88]]\<rparr>)"
    by (simp add: extractFileOptimized_def posix_eval path_eval)
  from traversal_above_destination [of "posix owner_env" "\<lparr>fs = Map.empty, calls = [MkdirAll ''..'' 493]\<rparr>"] p m
  show ?thesis
    by (simp add: Extract_def Peek_def example_tgz_def detectFormatFromBytes_def
        extractTarGzStream_def)
qed

text \<open>
  A name without a \<open>..\<close> element passes the guard for every destination but those that
  clean to \<open>/\<close> or \<open>.\<close>: there the cleaned destination and a separator are \<open>//\<close> and \<open>./\<close>,
  which do not begin the cleaned path of an entry, and \<open>test.txt\<close> is refused.
\<close>

lemma named_entry_refused_in_dot_and_root:
  "extractTarEntryOptimized sys (example_file ''test.txt'' ''Hello, World!'') ''.'' w =
     (Some (InvalidFilePath ''test.txt''), w) \<and>
   extractTarEntryOptimized sys (example_file ''test.txt'' ''Hello, World!'') ''/'' w =
     (Some (InvalidFilePath ''test.txt''), w)"
  by (simp add: extractTarEntryOptimized_def Let_def Join_def Clean_def clean_step_def
      HasPrefix_def example_file_def)




section \<open>A failing entry\<close>

















section \<open>The current-directory entry\<close>










end
